theory Spec2Isabelle
  imports
    Main
    "HOL-Library.Word"
    "HOL-Library.Sublist"
    "HOL-Library.AList"
    "HOL-Library.Char_ord"
    "HOL-Library.List_Lexorder"
begin

unbundle bit_operations_syntax

section \<open>Values and composite keys (internal/tree/key.go)\<close>

type_synonym byte = "8 word"

text \<open>
  A \<open>types.Value\<close> is an interface with two accessors, \<open>Type()\<close> and \<open>V()\<close>.
  \<open>V()\<close> returns an untyped payload that may be \<open>nil\<close> whatever \<open>Type()\<close> says, so
  the model keeps both apart: the payload is optional and is not tied to the type.
  Doubles are carried as their 64 IEEE-754 bits.
\<close>

datatype value_type =
  NullValue | BooleanValue | IntegerValue | DoubleValue
  | TextValue | BlobValue | ArrayValue | DocumentValue

datatype payload =
    PBool bool
  | PInt "64 word"
  | PDouble "64 word"
  | PText "byte list"
  | PBlob "byte list"
  | PArray "val list"
  | PDoc "(byte list \<times> val) list"
and val = Value (Type: value_type) (V: "payload option")

definition NewArrayValue :: "val list \<Rightarrow> val" where
  "NewArrayValue vs = Value ArrayValue (Some (PArray vs))"

definition NewTextValue :: "byte list \<Rightarrow> val" where
  "NewTextValue s = Value TextValue (Some (PText s))"

definition NewIntegerValue :: "64 word \<Rightarrow> val" where
  "NewIntegerValue i = Value IntegerValue (Some (PInt i))"

subsection \<open>The value codec\<close>

text \<open>
  Modelled from the spec: \<open>encoding.EncodeValue\<close> (package types/encoding) is not part of
  the sources at hand. The definitions below follow section 4.2 of the specification:
  one tag byte per kind, then the payload; integers as sign-flipped big-endian 8 bytes;
  doubles through the order-preserving transform, NaN rejected; text and blobs with the
  zero byte escaped and a zero terminator; arrays and documents as their start tag, the
  concatenated encodings of their members and their end tag. The numeric values of the
  tag bytes are not given anywhere, so they are a parameter. A payload that does not
  fit the declared type is the specification's "type mismatch at codec layer". For a
  value without payload (\<open>V() == nil\<close>) of a type other than Null section 4.2 gives
  no encoding; what the encoder makes of one is the parameter \<open>on_nil\<close>, and
  \<open>reject_nil\<close> below is the reading of the specification's sentence on keys.
\<close>

record codec_tags =
  tagNull :: byte
  tagFalse :: byte
  tagTrue :: byte
  tagInteger :: byte
  tagDouble :: byte
  tagText :: byte
  tagBlob :: byte
  ArrayStart :: byte
  ArrayEnd :: byte
  DocStart :: byte
  DocEnd :: byte

text \<open>
  The failures of the codec and of \<open>NewKey\<close> are Go \<open>error\<close> values of one type;
  \<open>NewKey\<close> returns an error of the encoder as it gets it. \<open>CannotEncodeNilValue\<close> is
  the error \<open>NewKey\<close> makes itself ("cannot encode nil value"), \<open>InvalidValue\<close>,
  \<open>TypeMismatch\<close> and \<open>NaNRejected\<close> are failures of the encoder, and
  \<open>SliceBoundsOutOfRange\<close> is the panic of a slice expression.
\<close>

datatype key_error =
    CannotEncodeNilValue
  | InvalidValue
  | TypeMismatch
  | NaNRejected
  | SliceBoundsOutOfRange

definition be_bytes :: "64 word \<Rightarrow> byte list" where
  "be_bytes w = map (\<lambda>i. ucast (drop_bit (8 * i) w)) (rev [0..<8])"

definition EncodeInt64 :: "64 word \<Rightarrow> byte list" where
  "EncodeInt64 x = be_bytes (x XOR push_bit 63 1)"

definition isNaN :: "64 word \<Rightarrow> bool" where
  "isNaN w \<longleftrightarrow> (w AND 0x7FF0000000000000) = 0x7FF0000000000000
                \<and> (w AND 0x000FFFFFFFFFFFFF) \<noteq> 0"

definition EncodeFloat64 :: "64 word \<Rightarrow> byte list" where
  "EncodeFloat64 w =
     be_bytes (if bit w 63 then NOT w else w XOR push_bit 63 1)"

definition escape_zero :: "byte list \<Rightarrow> byte list" where
  "escape_zero bs = concat (map (\<lambda>b. if b = 0 then [0, 0xFF] else [b]) bs)"

definition EncodeText :: "codec_tags \<Rightarrow> byte list \<Rightarrow> byte list" where
  "EncodeText tg s = tagText tg # escape_zero s @ [0]"

definition EncodeBlob :: "codec_tags \<Rightarrow> byte list \<Rightarrow> byte list" where
  "EncodeBlob tg s = tagBlob tg # escape_zero s @ [0]"

fun EncodeValue :: "codec_tags \<Rightarrow> (value_type \<Rightarrow> key_error + byte list) \<Rightarrow> val
                      \<Rightarrow> key_error + byte list"
and EncodePayload :: "codec_tags \<Rightarrow> (value_type \<Rightarrow> key_error + byte list) \<Rightarrow> value_type
                      \<Rightarrow> payload option \<Rightarrow> key_error + byte list"
and EncodeValues :: "codec_tags \<Rightarrow> (value_type \<Rightarrow> key_error + byte list) \<Rightarrow> val list
                      \<Rightarrow> key_error + byte list"
and EncodeFields :: "codec_tags \<Rightarrow> (value_type \<Rightarrow> key_error + byte list)
                      \<Rightarrow> (byte list \<times> val) list \<Rightarrow> key_error + byte list"
where
  "EncodeValue tg on_nil (Value t p) = EncodePayload tg on_nil t p"
| "EncodePayload tg on_nil NullValue p = Inr [tagNull tg]"
| "EncodePayload tg on_nil t None = on_nil t"
| "EncodePayload tg on_nil BooleanValue (Some (PBool b)) =
     Inr [if b then tagTrue tg else tagFalse tg]"
| "EncodePayload tg on_nil IntegerValue (Some (PInt i)) = Inr (tagInteger tg # EncodeInt64 i)"
| "EncodePayload tg on_nil DoubleValue (Some (PDouble d)) =
     (if isNaN d then Inl NaNRejected else Inr (tagDouble tg # EncodeFloat64 d))"
| "EncodePayload tg on_nil TextValue (Some (PText s)) = Inr (EncodeText tg s)"
| "EncodePayload tg on_nil BlobValue (Some (PBlob s)) = Inr (EncodeBlob tg s)"
| "EncodePayload tg on_nil ArrayValue (Some (PArray vs)) =
     (case EncodeValues tg on_nil vs of
        Inl e \<Rightarrow> Inl e
      | Inr bs \<Rightarrow> Inr (ArrayStart tg # bs @ [ArrayEnd tg]))"
| "EncodePayload tg on_nil DocumentValue (Some (PDoc fs)) =
     (case EncodeFields tg on_nil fs of
        Inl e \<Rightarrow> Inl e
      | Inr bs \<Rightarrow> Inr (DocStart tg # bs @ [DocEnd tg]))"
| "EncodePayload tg on_nil t (Some p) = Inl TypeMismatch"
| "EncodeValues tg on_nil [] = Inr []"
| "EncodeValues tg on_nil (v # vs) =
     (case EncodeValue tg on_nil v of
        Inl e \<Rightarrow> Inl e
      | Inr b \<Rightarrow>
          (case EncodeValues tg on_nil vs of
             Inl e \<Rightarrow> Inl e
           | Inr bs \<Rightarrow> Inr (b @ bs)))"
| "EncodeFields tg on_nil [] = Inr []"
| "EncodeFields tg on_nil ((k, v) # fs) =
     (case EncodeValue tg on_nil v of
        Inl e \<Rightarrow> Inl e
      | Inr b \<Rightarrow>
          (case EncodeFields tg on_nil fs of
             Inl e \<Rightarrow> Inl e
           | Inr bs \<Rightarrow> Inr (EncodeText tg k @ b @ bs)))"

text \<open>
  Modelled from the spec: what \<open>encoding.EncodeValue\<close> does with a value without
  payload is not in the sources at hand. Section 4.2 of the specification, on composite
  keys: "Encoding a nil top-level value fails with InvalidValue".
\<close>

definition reject_nil :: "value_type \<Rightarrow> key_error + byte list" where
  "reject_nil t = Inl InvalidValue"

subsection \<open>NewKey\<close>

text \<open>
  \<open>NewKey\<close> returns \<open>(nil, nil)\<close> for no values, refuses a first value whose payload is
  \<open>nil\<close> unless its type is Null, and otherwise encodes the values as one array and cuts
  the first and the last byte off. The encoder is the parameter \<open>enc\<close>; its failures are
  passed on unchanged. The slice expression \<open>key[1 : len(key)-1]\<close> panics when the
  encoder hands back fewer than two bytes. A \<open>nil\<close> key is the empty byte list.
\<close>

type_synonym Key = "byte list"

definition NewKey :: "(val \<Rightarrow> key_error + byte list) \<Rightarrow> val list \<Rightarrow> key_error + Key" where
  "NewKey enc values =
     (case values of
        [] \<Rightarrow> Inr []
      | v0 # _ \<Rightarrow>
          if Type v0 \<noteq> NullValue \<and> V v0 = None then Inl CannotEncodeNilValue
          else
            (case enc (NewArrayValue values) of
               Inl e \<Rightarrow> Inl e
             | Inr key \<Rightarrow>
                 if length key < 2 then Inl SliceBoundsOutOfRange
                 else Inr (take (length key - 2) (drop 1 key))))"

section \<open>The catalog (internal/database/catalog.go)\<close>

subsection \<open>Relations\<close>

datatype PathFragment = FieldName string | ArrayIndex nat

type_synonym Path = "PathFragment list"

text \<open>
  An \<open>Owner\<close> names the table, and for a constraint also the paths, that caused a
  relation to exist. A \<open>nil\<close> slice of paths is the empty list.
\<close>

record owner =
  owner_TableName :: string
  owner_Paths :: "Path list"

record TableConstraint =
  PrimaryKey :: bool
  tc_Paths :: "Path list"

record TableInfo =
  TableName :: string
  StoreNamespace :: nat
  ReadOnly :: bool
  DocidSequenceName :: string
  TableConstraints :: "TableConstraint list"

record IndexInfo =
  IndexName :: string
  idx_TableName :: string
  idx_StoreNamespace :: nat
  Paths :: "Path list"
  Unique :: bool
  Owner :: owner

record SequenceInfo =
  seq_Name :: string
  seq_IncrementBy :: int
  seq_Min :: int
  seq_Max :: int
  seq_Start :: int
  seq_Owner :: owner

record Sequence =
  Info :: SequenceInfo

text \<open>
  Modelled from the spec: \<open>TableInfo.GetPrimaryKey\<close> is not part of the sources at
  hand. Section 3 of the specification: a table constraint may be a PRIMARY KEY over a
  list of paths, and a table has at most one declared. It returns the first table
  constraint flagged as primary key, \<open>nil\<close> when there is none.
\<close>

definition GetPrimaryKey :: "TableInfo \<Rightarrow> TableConstraint option" where
  "GetPrimaryKey ti = find PrimaryKey (TableConstraints ti)"

datatype rel_type = RelationTableType | RelationIndexType | RelationSequenceType

datatype relation = RTable TableInfo | RIndex IndexInfo | RSeq Sequence

fun rel_Type :: "relation \<Rightarrow> rel_type" where
  "rel_Type (RTable _) = RelationTableType"
| "rel_Type (RIndex _) = RelationIndexType"
| "rel_Type (RSeq _) = RelationSequenceType"

fun rel_Name :: "relation \<Rightarrow> string" where
  "rel_Name (RTable ti) = TableName ti"
| "rel_Name (RIndex ii) = IndexName ii"
| "rel_Name (RSeq s) = seq_Name (Info s)"

fun SetName :: "string \<Rightarrow> relation \<Rightarrow> relation" where
  "SetName n (RTable ti) = RTable (ti\<lparr>TableName := n\<rparr>)"
| "SetName n (RIndex ii) = RIndex (ii\<lparr>IndexName := n\<rparr>)"
| "SetName n (RSeq s) = RSeq (s\<lparr>Info := (Info s)\<lparr>seq_Name := n\<rparr>\<rparr>)"

subsection \<open>The cache\<close>

text \<open>
  The cache holds three Go maps from names to relations. Each is an association list;
  the order of the list is the order in which \<open>range\<close> visits the map, which Go leaves
  open, so nothing below depends on it. Every map only ever receives relations of its
  own type (\<open>Add\<close> and \<open>Replace\<close> pick the map by \<open>o.Type()\<close>, \<open>Load\<close> takes typed
  slices), which the model records in the types of the three lists.
\<close>

record catalogCache =
  tables :: "(string \<times> TableInfo) list"
  indexes :: "(string \<times> IndexInfo) list"
  sequences :: "(string \<times> Sequence) list"

definition newCatalogCache :: catalogCache where
  "newCatalogCache = \<lparr>tables = [], indexes = [], sequences = []\<rparr>"

definition objectExists :: "catalogCache \<Rightarrow> string \<Rightarrow> bool" where
  "objectExists c name \<longleftrightarrow>
     map_of (tables c) name \<noteq> None
     \<or> map_of (sequences c) name \<noteq> None
     \<or> map_of (indexes c) name \<noteq> None"

text \<open>The decimal rendering of \<open>%d\<close> for the counter of \<open>generateUnusedName\<close>.\<close>

fun itoa :: "nat \<Rightarrow> string" where
  "itoa n =
     (if n < 10 then [char_of (48 + n)]
      else itoa (n div 10) @ [char_of (48 + n mod 10)])"

declare itoa.simps [simp del]

definition used_names :: "catalogCache \<Rightarrow> string set" where
  "used_names c = fst ` set (tables c) \<union> fst ` set (sequences c) \<union> fst ` set (indexes c)"

definition atoi :: "string \<Rightarrow> nat" where
  "atoi s = foldl (\<lambda>a ch. 10 * a + (of_char ch - 48)) 0 s"

text \<open>
  \<open>generateUnusedName\<close> tries \<open>baseName\<close>, then \<open>baseName1\<close>, \<open>baseName2\<close>, ... until a
  name is free in all three maps. The counter is a Go \<open>int\<close>; it is unbounded here. The
  loop ends because the maps are finite and the candidate names are pairwise different.
\<close>

function generateUnusedName_loop :: "catalogCache \<Rightarrow> string \<Rightarrow> string \<Rightarrow> nat \<Rightarrow> string" where
  "generateUnusedName_loop c baseName name i =
     (if \<not> objectExists c name then name
      else generateUnusedName_loop c baseName (baseName @ itoa (i + 1)) (i + 1))"
  by pat_completeness auto
termination
proof (relation "measure (\<lambda>(c, b, name, i).
         2 * card {j. i < j \<and> objectExists c (b @ itoa j)} + (if objectExists c name then 1 else 0))",
       goal_cases)
  case 1
  show ?case by simp
next
  case (2 c baseName name i)
  have atoi_itoa: "atoi (itoa n) = n" for n
  proof (induction n rule: itoa.induct)
    case (1 n)
    show ?case
    proof (cases "n < 10")
      case True
      then show ?thesis by (subst itoa.simps) (simp add: atoi_def)
    next
      case False
      with 1 have "atoi (itoa (n div 10)) = n div 10" by simp
      with False show ?thesis
        by (subst itoa.simps) (simp add: atoi_def)
    qed
  qed
  have inj: "inj (\<lambda>j. baseName @ itoa j)"
    by (rule injI) (metis atoi_itoa same_append_eq)
  have used: "{s. objectExists c s} = used_names c"
    by (auto simp: objectExists_def used_names_def map_of_eq_None_iff)
  have fin: "finite {j. objectExists c (baseName @ itoa j)}"
  proof -
    have "finite (used_names c)" by (simp add: used_names_def)
    then have "finite ((\<lambda>j. baseName @ itoa j) -` used_names c)"
      using inj by (rule finite_vimageI)
    moreover have "(\<lambda>j. baseName @ itoa j) -` used_names c = {j. objectExists c (baseName @ itoa j)}"
      using used by auto
    ultimately show ?thesis by simp
  qed
  let ?A = "{j. i < j \<and> objectExists c (baseName @ itoa j)}"
  let ?B = "{j. i + 1 < j \<and> objectExists c (baseName @ itoa j)}"
  have finA: "finite ?A" using fin by simp
  have sub: "?B \<subseteq> ?A" by auto
  have le: "card ?B \<le> card ?A" using finA sub by (rule card_mono)
  show ?case
  proof (cases "objectExists c (baseName @ itoa (i + 1))")
    case True
    then have "i + 1 \<in> ?A" "i + 1 \<notin> ?B" by auto
    then have "?B \<subset> ?A" using sub by blast
    then have "card ?B < card ?A" using finA by (rule psubset_card_mono[rotated])
    with 2 True show ?thesis by simp
  next
    case False
    with 2 le show ?thesis by simp
  qed
qed

declare generateUnusedName_loop.simps [simp del]

definition generateUnusedName :: "catalogCache \<Rightarrow> string \<Rightarrow> string" where
  "generateUnusedName c baseName = generateUnusedName_loop c baseName baseName 0"

text \<open>\<open>m[name] = o\<close>, \<open>delete(m, name)\<close> and \<open>m[name]\<close> on the map of a relation type.\<close>

fun cache_set :: "string \<Rightarrow> relation \<Rightarrow> catalogCache \<Rightarrow> catalogCache" where
  "cache_set name (RTable ti) c = c\<lparr>tables := AList.update name ti (tables c)\<rparr>"
| "cache_set name (RIndex ii) c = c\<lparr>indexes := AList.update name ii (indexes c)\<rparr>"
| "cache_set name (RSeq s) c = c\<lparr>sequences := AList.update name s (sequences c)\<rparr>"

fun cache_del :: "rel_type \<Rightarrow> string \<Rightarrow> catalogCache \<Rightarrow> catalogCache" where
  "cache_del RelationTableType name c = c\<lparr>tables := AList.delete name (tables c)\<rparr>"
| "cache_del RelationIndexType name c = c\<lparr>indexes := AList.delete name (indexes c)\<rparr>"
| "cache_del RelationSequenceType name c = c\<lparr>sequences := AList.delete name (sequences c)\<rparr>"

fun cache_lookup :: "rel_type \<Rightarrow> string \<Rightarrow> catalogCache \<Rightarrow> relation option" where
  "cache_lookup RelationTableType name c = map_option RTable (map_of (tables c) name)"
| "cache_lookup RelationIndexType name c = map_option RIndex (map_of (indexes c) name)"
| "cache_lookup RelationSequenceType name c = map_option RSeq (map_of (sequences c) name)"

subsection \<open>Rollback hooks\<close>

text \<open>
  The closures appended to \<open>tx.OnRollbackHooks\<close> come in two shapes: \<open>delete(m, name)\<close>
  and \<open>m[name] = o\<close>, with \<open>m\<close> the map of the relation's type.
\<close>

datatype hook = HookDelete rel_type string | HookSet string relation

fun run_hook :: "hook \<Rightarrow> catalogCache \<Rightarrow> catalogCache" where
  "run_hook (HookDelete tp name) c = cache_del tp name c"
| "run_hook (HookSet name r) c = cache_set name r c"

text \<open>
  Running a list of hooks, the last appended first: the order in which section 5 of the
  specification has a rollback run them (\<open>Transaction.Rollback\<close> itself is declared
  outside the sources at hand).
\<close>

definition run_hooks_lifo :: "hook list \<Rightarrow> catalogCache \<Rightarrow> catalogCache" where
  "run_hooks_lifo hs c = fold run_hook (rev hs) c"

subsection \<open>Catalog rows and the store\<close>

text \<open>
  A catalog row is the document \<open>relationToDocument\<close> builds. The \<open>sql\<close> column is the
  rendering \<open>String()\<close> of the relation, which is declared elsewhere; it is left out.
\<close>

record catalog_row =
  row_name :: string
  row_type :: rel_type
  row_namespace :: "nat option"
  row_table_name :: "string option"
  row_docid_sequence_name :: "string option"
  row_owner :: "owner option"

definition ownerToDocument :: "owner \<Rightarrow> owner option" where
  "ownerToDocument ow = (if owner_TableName ow \<noteq> [] then Some ow else None)"

definition tableInfoToDocument :: "TableInfo \<Rightarrow> catalog_row" where
  "tableInfoToDocument ti =
     \<lparr>row_name = TableName ti, row_type = RelationTableType,
      row_namespace = Some (StoreNamespace ti), row_table_name = None,
      row_docid_sequence_name =
        (if DocidSequenceName ti \<noteq> [] then Some (DocidSequenceName ti) else None),
      row_owner = None\<rparr>"

definition indexInfoToDocument :: "IndexInfo \<Rightarrow> catalog_row" where
  "indexInfoToDocument i =
     \<lparr>row_name = IndexName i, row_type = RelationIndexType,
      row_namespace = Some (idx_StoreNamespace i), row_table_name = Some (idx_TableName i),
      row_docid_sequence_name = None,
      row_owner = ownerToDocument (Owner i)\<rparr>"

definition sequenceInfoToDocument :: "SequenceInfo \<Rightarrow> catalog_row" where
  "sequenceInfoToDocument seq =
     \<lparr>row_name = seq_Name seq, row_type = RelationSequenceType,
      row_namespace = None, row_table_name = None,
      row_docid_sequence_name = None,
      row_owner = ownerToDocument (seq_Owner seq)\<rparr>"

fun relationToDocument :: "relation \<Rightarrow> catalog_row" where
  "relationToDocument (RTable t) = tableInfoToDocument t"
| "relationToDocument (RIndex t) = indexInfoToDocument t"
| "relationToDocument (RSeq t) = sequenceInfoToDocument (Info t)"

text \<open>
  The state the catalog works on: the cache, the rows of the catalog table (namespace 1,
  keyed by relation name), the other namespaces of the store, whether the session is
  read-only, and the rollback hooks of the transaction.
\<close>

record db =
  Cache :: catalogCache
  rows :: "string \<rightharpoonup> catalog_row"
  store :: "nat \<Rightarrow> (Key \<rightharpoonup> byte list)"
  SessionReadOnly :: bool
  OnRollbackHooks :: "hook list"

datatype db_error =
    NotFoundError string
  | AlreadyExistsError string
  | ErrDocumentNotFound
  | ErrReadOnly
  | ErrReadOnlyTable
  | ErrIndexOwnedByConstraint string string "Path list"
  | ErrCannotUnsetPrimaryKeyPath
  | ErrMissingDocument
  | ErrMissingKey
  | ErrStreamClosed
  | ErrOther string
  | PanicTypeAssertion

definition bindE :: "'e + 'a \<Rightarrow> ('a \<Rightarrow> 'e + 'b) \<Rightarrow> 'e + 'b" where
  "bindE m f = (case m of Inl e \<Rightarrow> Inl e | Inr x \<Rightarrow> f x)"

text \<open>
  Modelled from the spec: \<open>Table.Insert\<close>, \<open>Table.Replace\<close>, \<open>Table.Delete\<close> and
  \<open>Namespace.Truncate\<close> are not part of the sources at hand. Sections 4.1 and 4.4 of
  the specification: insertion refuses a primary key that is already there (which
  \<open>CatalogStore.Insert\<close> turns into \<open>AlreadyExistsError\<close>), replacement puts the document
  under the same key, deletion fails when the key is absent (the error \<open>RenameTable\<close>
  tests for), truncation deletes every key of the namespace, and every write fails in
  a read-only session. The key \<open>NewKey(NewTextValue(name))\<close> of a row stands for its name.
\<close>

definition CatalogStore_Insert :: "db \<Rightarrow> relation \<Rightarrow> db_error + db" where
  "CatalogStore_Insert st r =
     (if rows st (rel_Name r) \<noteq> None then Inl (AlreadyExistsError (rel_Name r))
      else if SessionReadOnly st then Inl ErrReadOnly
      else Inr (st\<lparr>rows := (rows st)(rel_Name r \<mapsto> relationToDocument r)\<rparr>))"

definition CatalogStore_Replace :: "db \<Rightarrow> string \<Rightarrow> relation \<Rightarrow> db_error + db" where
  "CatalogStore_Replace st name r =
     (if SessionReadOnly st then Inl ErrReadOnly
      else Inr (st\<lparr>rows := (rows st)(name \<mapsto> relationToDocument r)\<rparr>))"

definition CatalogStore_Delete :: "db \<Rightarrow> string \<Rightarrow> db_error + db" where
  "CatalogStore_Delete st name =
     (if SessionReadOnly st then Inl ErrReadOnly
      else if rows st name = None then Inl ErrDocumentNotFound
      else Inr (st\<lparr>rows := (rows st)(name := None)\<rparr>))"

definition Truncate :: "db \<Rightarrow> nat \<Rightarrow> db_error + db" where
  "Truncate st ns =
     (if SessionReadOnly st then Inl ErrReadOnly
      else Inr (st\<lparr>store := (store st)(ns := Map.empty)\<rparr>))"

subsection \<open>Cache operations\<close>

text \<open>
  \<open>GenerateBaseName\<close> is a method of the relations declared elsewhere; it is the
  parameter \<open>gbn\<close>. \<open>Add\<close> hands back the relation as it stands after \<open>SetName\<close>,
  which in Go is visible to the caller through the pointer.
\<close>

definition add_entry :: "db \<Rightarrow> string \<Rightarrow> relation \<Rightarrow> relation \<times> db" where
  "add_entry st name o' =
     (o', st\<lparr>Cache := cache_set name o' (Cache st),
             OnRollbackHooks := OnRollbackHooks st @ [HookDelete (rel_Type o') name]\<rparr>)"

definition Cache_Add :: "(relation \<Rightarrow> string) \<Rightarrow> db \<Rightarrow> relation \<Rightarrow> db_error + (relation \<times> db)" where
  "Cache_Add gbn st o' =
     (let name = rel_Name o' in
      if name \<noteq> [] then
        (if objectExists (Cache st) name then Inl (AlreadyExistsError name)
         else Inr (add_entry st name o'))
      else
        (let name = generateUnusedName (Cache st) (gbn o')
         in Inr (add_entry st name (SetName name o'))))"

definition Cache_Replace :: "db \<Rightarrow> relation \<Rightarrow> db_error + db" where
  "Cache_Replace st o' =
     (case cache_lookup (rel_Type o') (rel_Name o') (Cache st) of
        None \<Rightarrow> Inl (NotFoundError (rel_Name o'))
      | Some old \<Rightarrow>
          Inr (st\<lparr>Cache := cache_set (rel_Name o') o' (Cache st),
                 OnRollbackHooks := OnRollbackHooks st @ [HookSet (rel_Name o') old]\<rparr>))"

definition Cache_Delete :: "db \<Rightarrow> rel_type \<Rightarrow> string \<Rightarrow> db_error + (relation \<times> db)" where
  "Cache_Delete st tp name =
     (case cache_lookup tp name (Cache st) of
        None \<Rightarrow> Inl (NotFoundError name)
      | Some o' \<Rightarrow>
          Inr (o',
               st\<lparr>Cache := cache_del tp name (Cache st),
                  OnRollbackHooks := OnRollbackHooks st @ [HookSet name o']\<rparr>))"

definition GetTableInfo :: "catalogCache \<Rightarrow> string \<Rightarrow> db_error + TableInfo" where
  "GetTableInfo c tableName =
     (case map_of (tables c) tableName of
        None \<Rightarrow> Inl (NotFoundError tableName)
      | Some ti \<Rightarrow> Inr ti)"

definition GetIndexInfo :: "catalogCache \<Rightarrow> string \<Rightarrow> db_error + IndexInfo" where
  "GetIndexInfo c indexName =
     (case map_of (indexes c) indexName of
        None \<Rightarrow> Inl (NotFoundError indexName)
      | Some ii \<Rightarrow> Inr ii)"

definition GetSequence :: "catalogCache \<Rightarrow> string \<Rightarrow> db_error + Sequence" where
  "GetSequence c name =
     (case map_of (sequences c) name of
        None \<Rightarrow> Inl (NotFoundError name)
      | Some s \<Rightarrow> Inr s)"

fun ListObjects :: "catalogCache \<Rightarrow> rel_type \<Rightarrow> string list" where
  "ListObjects c RelationTableType = sort (map fst (tables c))"
| "ListObjects c RelationIndexType = sort (map fst (indexes c))"
| "ListObjects c RelationSequenceType = sort (map fst (sequences c))"

definition GetTableIndexes :: "catalogCache \<Rightarrow> string \<Rightarrow> IndexInfo list" where
  "GetTableIndexes c tableName =
     filter (\<lambda>idx. idx_TableName idx = tableName) (map snd (indexes c))"

definition ListIndexes :: "catalogCache \<Rightarrow> string \<Rightarrow> string list" where
  "ListIndexes c tableName =
     (if tableName = [] then sort (ListObjects c RelationIndexType)
      else sort (map IndexName (GetTableIndexes c tableName)))"

definition ListSequences :: "catalogCache \<Rightarrow> string list" where
  "ListSequences c = ListObjects c RelationSequenceType"

subsection \<open>Dropping and renaming\<close>

definition dropIndex :: "db \<Rightarrow> IndexInfo \<Rightarrow> db_error + db" where
  "dropIndex st info =
     bindE (Truncate st (idx_StoreNamespace info))
       (\<lambda>st1. CatalogStore_Delete st1 (IndexName info))"

definition DropIndex :: "db \<Rightarrow> string \<Rightarrow> db_error + db" where
  "DropIndex st name =
     bindE (GetIndexInfo (Cache st) name) (\<lambda>info.
       if length (owner_Paths (Owner info)) > 0
       then Inl (ErrIndexOwnedByConstraint (IndexName info) (idx_TableName info)
                   (owner_Paths (Owner info)))
       else
         bindE (Cache_Delete st RelationIndexType name) (\<lambda>(_, st1).
           dropIndex st1 info))"

fun DropTable_indexes :: "db \<Rightarrow> IndexInfo list \<Rightarrow> db_error + db" where
  "DropTable_indexes st [] = Inr st"
| "DropTable_indexes st (idx # idxs) =
     bindE (Cache_Delete st RelationIndexType (IndexName idx)) (\<lambda>(_, st1).
       bindE (dropIndex st1 idx) (\<lambda>st2.
         DropTable_indexes st2 idxs))"

definition DropTable :: "db \<Rightarrow> string \<Rightarrow> db_error + db" where
  "DropTable st tableName =
     bindE (GetTableInfo (Cache st) tableName) (\<lambda>ti.
       if ReadOnly ti then Inl ErrReadOnlyTable
       else
         bindE (DropTable_indexes st (GetTableIndexes (Cache st) tableName)) (\<lambda>st1.
           bindE (Cache_Delete st1 RelationTableType tableName) (\<lambda>(_, st2).
             bindE (CatalogStore_Delete st2 tableName) (\<lambda>st3.
               Truncate st3 (StoreNamespace ti)))))"

text \<open>
  The two loops of \<open>RenameTable\<close>. In the first, \<open>idx\<close> is the entry \<open>GetTableIndexes\<close>
  returned and \<open>idxClone\<close> the copy carrying the new table name; the catalog row is
  written from \<open>idx\<close>, as in the source. In the second the row is written from the clone.
\<close>

fun RenameTable_indexes ::
  "(relation \<Rightarrow> string) \<Rightarrow> db \<Rightarrow> TableInfo \<Rightarrow> IndexInfo list \<Rightarrow> db_error + db" where
  "RenameTable_indexes gbn st clone [] = Inr st"
| "RenameTable_indexes gbn st clone (idx # idxs) =
     bindE (Cache_Delete st RelationIndexType (IndexName idx)) (\<lambda>(r, st1).
       (case r of
          RIndex info \<Rightarrow>
            (let idxClone = info\<lparr>idx_TableName := TableName clone\<rparr> in
             bindE (Cache_Add gbn st1 (RIndex idxClone)) (\<lambda>(_, st2).
               bindE (CatalogStore_Replace st2 (IndexName idx) (RIndex idx)) (\<lambda>st3.
                 RenameTable_indexes gbn st3 clone idxs)))
        | _ \<Rightarrow> Inl PanicTypeAssertion))"

fun RenameTable_sequences ::
  "(relation \<Rightarrow> string) \<Rightarrow> db \<Rightarrow> string \<Rightarrow> string \<Rightarrow> string list \<Rightarrow> db_error + db" where
  "RenameTable_sequences gbn st oldName newName [] = Inr st"
| "RenameTable_sequences gbn st oldName newName (seqName # seqNames) =
     bindE (GetSequence (Cache st) seqName) (\<lambda>seq.
       if owner_TableName (seq_Owner (Info seq)) \<noteq> oldName
       then RenameTable_sequences gbn st oldName newName seqNames
       else
         bindE (Cache_Delete st RelationSequenceType seqName) (\<lambda>(_, st1).
           (let clone = seq\<lparr>Info := (Info seq)\<lparr>seq_Owner :=
                          (seq_Owner (Info seq))\<lparr>owner_TableName := newName\<rparr>\<rparr>\<rparr> in
            bindE (Cache_Add gbn st1 (RSeq clone)) (\<lambda>(_, st2).
              bindE (CatalogStore_Replace st2 seqName (RSeq clone)) (\<lambda>st3.
                RenameTable_sequences gbn st3 oldName newName seqNames)))))"

definition RenameTable :: "(relation \<Rightarrow> string) \<Rightarrow> db \<Rightarrow> string \<Rightarrow> string \<Rightarrow> db_error + db" where
  "RenameTable gbn st oldName newName =
     (case CatalogStore_Delete st oldName of
        Inl ErrDocumentNotFound \<Rightarrow> Inl (NotFoundError oldName)
      | Inl e \<Rightarrow> Inl e
      | Inr st1 \<Rightarrow>
          bindE (Cache_Delete st1 RelationTableType oldName) (\<lambda>(o', st2).
            (case o' of
               RTable ti \<Rightarrow>
                 bindE (CatalogStore_Insert st2 (RTable (ti\<lparr>TableName := newName\<rparr>))) (\<lambda>st3.
                   bindE (Cache_Add gbn st3 (RTable (ti\<lparr>TableName := newName\<rparr>))) (\<lambda>(c', st4).
                     (case c' of
                        RTable clone \<Rightarrow>
                          bindE (RenameTable_indexes gbn st4 clone
                                   (GetTableIndexes (Cache st4) oldName)) (\<lambda>st5.
                            RenameTable_sequences gbn st5 oldName newName
                              (ListSequences (Cache st5)))
                      | _ \<Rightarrow> Inl PanicTypeAssertion)))
             | _ \<Rightarrow> Inl PanicTypeAssertion)))"

section \<open>Expressions and stream operators\<close>

text \<open>
  The packages \<open>expr\<close>, \<open>scanner\<close> and most of \<open>stream\<close> are declared outside the sources
  at hand. The types below hold what the planner and the statements read from them: an
  expression is a path, a literal, a literal list, a binary operator with its token, a
  \<open>BETWEEN\<close> operator with its three operands, or some other node with sub-expressions.
\<close>

datatype Token = EQ | NEQ | GT | GTE | LT | LTE | IN | NIN | BETWEEN | OtherToken string

datatype expr =
    EPath Path
  | ELiteralValue val
  | LiteralExprList "expr list"
  | EOperator Token expr expr
  | BetweenOperator expr expr expr
  | EOther string "expr list"

record Range =
  r_Paths :: "Path list"
  r_Min :: "expr list"
  r_Max :: "expr list"
  Exclusive :: bool
  Exact :: bool

datatype Operator =
    TableScan string "Range list"
  | IndexScan string "Range list"
  | DocsFilter expr
  | DocsProject "expr list"
  | PathsSet Path expr
  | PathsUnset string
  | TableValidate string
  | TableInsert string
  | TableReplace string
  | TableDelete string
  | IndexInsert string
  | IndexDelete string

text \<open>A stream is the list of its operators, source first; \<open>Pipe\<close> appends one.\<close>

type_synonym Stream = "Operator list"

definition Pipe :: "Stream \<Rightarrow> Operator \<Rightarrow> Stream" where
  "Pipe s op = s @ [op]"

section \<open>UPDATE (statement.UpdateStmt)\<close>

text \<open>
  \<open>Prepare\<close> tests the set pairs and the unset fields against \<open>nil\<close>, which an empty
  slice need not be: both are optional lists, \<open>None\<close> for \<open>nil\<close>.
\<close>

record UpdateStmt =
  upd_TableName :: string
  SetPairs :: "(Path \<times> expr) list option"
  UnsetFields :: "string list option"
  WhereExpr :: "expr option"

text \<open>The loop over the set pairs: it pipes one \<open>PathsSet\<close> per pair and raises
  \<open>pkModified\<close> at the first pair whose path is a primary-key path.\<close>

fun set_pairs_loop ::
  "TableConstraint option \<Rightarrow> (Path \<times> expr) list \<Rightarrow> bool \<Rightarrow> Stream \<Rightarrow> bool \<times> Stream" where
  "set_pairs_loop pk [] pkModified s = (pkModified, s)"
| "set_pairs_loop pk ((path, e) # pairs) pkModified s =
     set_pairs_loop pk pairs
       (case pk of
          None \<Rightarrow> pkModified
        | Some k \<Rightarrow>
            if \<not> pkModified then list_ex (\<lambda>p. p = path) (tc_Paths k) else pkModified)
       (Pipe s (PathsSet path e))"

fun unset_fields_loop ::
  "TableConstraint option \<Rightarrow> string list \<Rightarrow> Stream \<Rightarrow> db_error + Stream" where
  "unset_fields_loop pk [] s = Inr s"
| "unset_fields_loop pk (name # names) s =
     (if (case pk of
            None \<Rightarrow> False
          | Some k \<Rightarrow> list_ex (\<lambda>p. p = [FieldName name]) (tc_Paths k))
      then Inl ErrCannotUnsetPrimaryKeyPath
      else unset_fields_loop pk names (Pipe s (PathsUnset name)))"

text \<open>
  \<open>Prepare\<close> ends in \<open>StreamStmt.Prepare\<close>, declared elsewhere; the result here is the
  stream handed to it.
\<close>

definition Prepare :: "catalogCache \<Rightarrow> UpdateStmt \<Rightarrow> db_error + Stream" where
  "Prepare c stmt =
     bindE (GetTableInfo c (upd_TableName stmt)) (\<lambda>ti.
       let pk = GetPrimaryKey ti;
           s0 = [TableScan (upd_TableName stmt) []];
           s1 = (case WhereExpr stmt of None \<Rightarrow> s0 | Some w \<Rightarrow> Pipe s0 (DocsFilter w))
       in
       bindE
         (case SetPairs stmt of
            Some pairs \<Rightarrow> Inr (set_pairs_loop pk pairs False s1)
          | None \<Rightarrow>
              (case UnsetFields stmt of
                 Some names \<Rightarrow> map_sum id (Pair False) (unset_fields_loop pk names s1)
               | None \<Rightarrow> Inr (False, s1)))
         (\<lambda>(pkModified, s2).
            let s3 = Pipe s2 (TableValidate (upd_TableName stmt));
                indexNames = ListIndexes c (upd_TableName stmt);
                s4 = foldl (\<lambda>s indexName. Pipe s (IndexDelete indexName)) s3 indexNames;
                s5 = (if pkModified
                      then Pipe (Pipe s4 (TableDelete (upd_TableName stmt)))
                             (TableInsert (upd_TableName stmt))
                      else Pipe s4 (TableReplace (upd_TableName stmt)));
                s6 = foldl (\<lambda>s indexName. Pipe s (IndexInsert indexName)) s5 indexNames
            in Inr s6))"

section \<open>Table operators (internal/stream/table.go)\<close>

type_synonym Document = "(string \<times> val) list"

text \<open>The slots of an environment the table operators read and write.\<close>

record Environment =
  env_TableKey :: "string option"
  env_DocPKKey :: "Key option"
  env_Document :: "Document option"

text \<open>
  The callback \<open>it\<close> of \<open>TableReplaceOperator.Iterate\<close> on one incoming environment,
  with the table as a map from keys to documents. Modelled from the spec:
  \<open>Table.Replace\<close> is not part of the sources at hand; section 4.4 of the
  specification: it puts the (validated) document under the same key. The validation
  is the parameter \<open>validate\<close>.
\<close>

definition TableReplace_it ::
  "(Document \<Rightarrow> db_error + Document) \<Rightarrow> (Key \<rightharpoonup> Document) \<Rightarrow> Environment
     \<Rightarrow> db_error + (Key \<rightharpoonup> Document)" where
  "TableReplace_it validate table out =
     (case env_Document out of
        None \<Rightarrow> Inl ErrMissingDocument
      | Some d \<Rightarrow>
          (case env_DocPKKey out of
             None \<Rightarrow> Inl ErrMissingKey
           | Some key \<Rightarrow>
               bindE (validate d) (\<lambda>d'. Inr (table(key \<mapsto> d')))))"

text \<open>
  Modelled from the spec: \<open>Table.IterateOnRange\<close> is not part of the sources at hand.
  Section 4.4 of the specification: it calls \<open>fn\<close> once per hit of the range and stops
  at the first error, which it hands to its caller (\<open>Iterate\<close> tests the error it
  gets back for \<open>ErrStreamClosed\<close>; were \<open>IterateOnRange\<close> to turn that error into
  \<open>nil\<close> itself, the loop of \<open>Iterate\<close> would behave the same). The callback is a
  closure with state of its own; it takes that state and the hit and returns its
  error, if any, and the new state.
\<close>

fun IterateOnRange ::
  "(Key \<times> Document) list \<Rightarrow> ('s \<Rightarrow> Key \<Rightarrow> Document \<Rightarrow> db_error option \<times> 's) \<Rightarrow> 's
     \<Rightarrow> db_error option \<times> 's" where
  "IterateOnRange [] fn s = (None, s)"
| "IterateOnRange ((key, d) # hits) fn s =
     (case fn s key d of
        (Some e, s') \<Rightarrow> (Some e, s')
      | (None, s') \<Rightarrow> IterateOnRange hits fn s')"

text \<open>
  \<open>Iterate\<close> tests the ranges of the operator against \<open>nil\<close>: they are an optional
  list, \<open>None\<close> for \<open>nil\<close>.
\<close>

record TableScanOperator =
  scan_TableName :: string
  Ranges :: "Range list option"
  Reverse :: bool

text \<open>
  The loop of \<open>TableScanOperator.Iterate\<close> over the evaluated ranges. \<open>hits rng reverse\<close> are
  the rows of the table inside \<open>rng\<close> (\<open>None\<close> is the \<open>nil\<close> range: the whole table) in
  the order the scan visits them. The callback handed to \<open>IterateOnRange\<close> sets the key
  and the document in \<open>newEnv\<close> and calls \<open>fn\<close>.
\<close>

fun Iterate_ranges ::
  "('r option \<Rightarrow> bool \<Rightarrow> (Key \<times> Document) list) \<Rightarrow> bool \<Rightarrow> Environment
     \<Rightarrow> ('s \<Rightarrow> Environment \<Rightarrow> db_error option \<times> 's) \<Rightarrow> 'r option list \<Rightarrow> 's
     \<Rightarrow> db_error option \<times> 's" where
  "Iterate_ranges hits reverse newEnv fn [] s = (None, s)"
| "Iterate_ranges hits reverse newEnv fn (rng # rngs) s =
     (case IterateOnRange (hits rng reverse)
             (\<lambda>s key d. fn s (newEnv\<lparr>env_DocPKKey := Some key, env_Document := Some d\<rparr>)) s of
        (err, s') \<Rightarrow>
          (let err = (if err = Some ErrStreamClosed then None else err) in
           if err \<noteq> None then (err, s')
           else Iterate_ranges hits reverse newEnv fn rngs s'))"

text \<open>
  \<open>Iterate\<close>: the table must be in the catalog; the ranges are \<open>[nil]\<close> when those of
  the operator are \<open>nil\<close>, and otherwise what \<open>Ranges.Eval\<close> (declared elsewhere, the
  parameter \<open>Eval\<close>) makes of them.
\<close>

definition Iterate ::
  "catalogCache \<Rightarrow> (Range list \<Rightarrow> db_error + 'r list)
     \<Rightarrow> ('r option \<Rightarrow> bool \<Rightarrow> (Key \<times> Document) list)
     \<Rightarrow> TableScanOperator \<Rightarrow> ('s \<Rightarrow> Environment \<Rightarrow> db_error option \<times> 's) \<Rightarrow> 's
     \<Rightarrow> db_error option \<times> 's" where
  "Iterate c Eval hits it fn s =
     (let newEnv = \<lparr>env_TableKey = Some (scan_TableName it), env_DocPKKey = None,
                    env_Document = None\<rparr> in
      case GetTableInfo c (scan_TableName it) of
        Inl e \<Rightarrow> (Some e, s)
      | Inr _ \<Rightarrow>
          (case (case Ranges it of
                   None \<Rightarrow> Inr [None]
                 | Some rs \<Rightarrow> map_sum id (map Some) (Eval rs)) of
             Inl e \<Rightarrow> (Some e, s)
           | Inr ranges \<Rightarrow> Iterate_ranges hits (Reverse it) newEnv fn ranges s))"

section \<open>Index selection (planner.SelectIndex)\<close>

datatype planner_error =
    IndexOutOfRange
  | SliceOutOfRange
  | TypeAssertionFailed
  | CatalogError db_error

text \<open>
  A filter node carries the position of its \<open>docs.Filter\<close> operator among the filters
  of the stream context (in Go, the pointer to the operator), and the expression of
  the operator split into path, operator token and operand.
\<close>

record filterNode =
  node :: nat
  path :: Path
  operator :: Token
  operand :: expr

type_synonym filterNodes = "filterNode list"

text \<open>
  Costs are Go \<open>int\<close> values, 64 bits wide on the platforms the database is built for:
  additions and subtractions wrap around, and \<open>c < cost\<close> compares signed values.
\<close>

record candidate =
  nodes :: filterNodes
  replaceRootBy :: "Operator list"
  rangesCost :: "64 word"
  isIndex :: bool
  isUnique :: bool

definition Cost :: "candidate \<Rightarrow> 64 word" where
  "Cost c =
     (let cost = rangesCost c;
          cost = (if isIndex c then cost + 20 else cost);
          cost = (if isUnique c then cost - 10 else cost);
          cost = cost - of_nat (length (nodes c))
      in cost)"

text \<open>
  \<open>exprContainsPath\<close> walks the expression with \<open>expr.Walk\<close>, which is not part of
  the sources at hand, and stops at the first path. Modelled from the spec (section
  4.7, "E contains no path reference"): the walk visits an expression and all its
  sub-expressions.
\<close>

fun exprContainsPath :: "expr \<Rightarrow> bool" where
  "exprContainsPath (EPath p) = True"
| "exprContainsPath (ELiteralValue v) = False"
| "exprContainsPath (LiteralExprList es) = list_ex exprContainsPath es"
| "exprContainsPath (EOperator t l r) = (exprContainsPath l \<or> exprContainsPath r)"
| "exprContainsPath (BetweenOperator x a b) =
     (exprContainsPath x \<or> exprContainsPath a \<or> exprContainsPath b)"
| "exprContainsPath (EOther n es) = list_ex exprContainsPath es"

text \<open>The accessors of the \<open>expr.Operator\<close> interface.\<close>

fun is_Operator :: "expr \<Rightarrow> bool" where
  "is_Operator (EOperator t l r) = True"
| "is_Operator (BetweenOperator x a b) = True"
| "is_Operator _ = False"

fun op_Token :: "expr \<Rightarrow> Token" where
  "op_Token (EOperator t l r) = t"
| "op_Token (BetweenOperator x a b) = BETWEEN"
| "op_Token _ = OtherToken []"

fun LeftHand :: "expr \<Rightarrow> expr" where
  "LeftHand (EOperator t l r) = l"
| "LeftHand (BetweenOperator x a b) = a"
| "LeftHand e = e"

fun RightHand :: "expr \<Rightarrow> expr" where
  "RightHand (EOperator t l r) = r"
| "RightHand (BetweenOperator x a b) = b"
| "RightHand e = e"

fun is_Path :: "expr \<Rightarrow> bool" where
  "is_Path (EPath p) = True"
| "is_Path _ = False"

fun the_Path :: "expr \<Rightarrow> Path" where
  "the_Path (EPath p) = p"
| "the_Path _ = []"

fun is_LiteralExprList :: "expr \<Rightarrow> bool" where
  "is_LiteralExprList (LiteralExprList es) = True"
| "is_LiteralExprList _ = False"

definition operatorIsIndexCompatible :: "expr \<Rightarrow> bool" where
  "operatorIsIndexCompatible op = (op_Token op \<in> {EQ, GT, GTE, LT, LTE, IN, BETWEEN})"

text \<open>
  \<open>operatorCanUseIndex\<close> returns \<open>(true, path, operand)\<close> or \<open>(false, nil, nil)\<close>; the
  latter is \<open>None\<close>. The assertion \<open>op.(*expr.BetweenOperator)\<close> panics on an operator
  that has the token \<open>BETWEEN\<close> without being a \<open>BetweenOperator\<close>.
\<close>

definition operatorCanUseIndex :: "expr \<Rightarrow> planner_error + (Path \<times> expr) option" where
  "operatorCanUseIndex op =
     (let leftIsPath = is_Path (LeftHand op); rightIsPath = is_Path (RightHand op) in
      if op_Token op = IN then
        (if leftIsPath \<and> \<not> rightIsPath \<and> \<not> exprContainsPath (RightHand op) then
           (if \<not> is_LiteralExprList (RightHand op) then Inr None
            else Inr (Some (the_Path (LeftHand op), RightHand op)))
         else Inr None)
      else if op_Token op = BETWEEN then
        (case op of
           BetweenOperator x a b \<Rightarrow>
             if \<not> is_Path x \<or> exprContainsPath a \<or> exprContainsPath b then Inr None
             else Inr (Some (the_Path x, LiteralExprList [a, b]))
         | _ \<Rightarrow> Inl TypeAssertionFailed)
      else if leftIsPath \<and> \<not> rightIsPath \<and> \<not> exprContainsPath (RightHand op) then
        Inr (Some (the_Path (LeftHand op), RightHand op))
      else if rightIsPath \<and> \<not> leftIsPath \<and> \<not> exprContainsPath (LeftHand op) then
        Inr (Some (the_Path (RightHand op), LeftHand op))
      else Inr None)"

definition isFilterIndexable :: "nat \<Rightarrow> expr \<Rightarrow> planner_error + filterNode option" where
  "isFilterIndexable f e =
     (if \<not> is_Operator e then Inr None
      else if \<not> operatorIsIndexCompatible e then Inr None
      else
        bindE (operatorCanUseIndex e) (\<lambda>r.
          case r of
            None \<Rightarrow> Inr None
          | Some (p, e') \<Rightarrow>
              Inr (Some \<lparr>node = f, path = p, operator = op_Token e, operand = e'\<rparr>)))"

definition getByPath :: "filterNodes \<Rightarrow> Path \<Rightarrow> filterNode option" where
  "getByPath f p = find (\<lambda>fn. path fn = p) f"

text \<open>
  \<open>buildRangeFromOperator\<close>. In the \<open>BETWEEN\<close> case the last operand is asserted to be
  a literal list and its first two members are read by index.
\<close>

definition buildRangeFromOperator ::
  "Token \<Rightarrow> Path list \<Rightarrow> expr list \<Rightarrow> planner_error + Range" where
  "buildRangeFromOperator lastOp paths el =
     (let rng = \<lparr>r_Paths = paths, r_Min = [], r_Max = [], Exclusive = False, Exact = False\<rparr> in
      if lastOp = EQ \<or> lastOp = IN then Inr (rng\<lparr>Exact := True, r_Min := el\<rparr>)
      else if lastOp = GT then Inr (rng\<lparr>Exclusive := True, r_Min := el\<rparr>)
      else if lastOp = GTE then Inr (rng\<lparr>r_Min := el\<rparr>)
      else if lastOp = LT then Inr (rng\<lparr>Exclusive := True, r_Max := el\<rparr>)
      else if lastOp = LTE then Inr (rng\<lparr>r_Max := el\<rparr>)
      else if lastOp = BETWEEN then
        (if el = [] then Inr rng
         else
           (case last el of
              LiteralExprList e \<Rightarrow>
                if length e < 2 then Inl IndexOutOfRange
                else Inr (rng\<lparr>r_Min := butlast el @ [e ! 0], r_Max := butlast el @ [e ! 1]\<rparr>)
            | _ \<Rightarrow> Inl TypeAssertionFailed))
      else Inr rng)"

definition buildRangeFromFilterNodes :: "filterNode list \<Rightarrow> planner_error + Range" where
  "buildRangeFromFilterNodes filters =
     (if filters = [] then Inl IndexOutOfRange
      else buildRangeFromOperator (operator (last filters))
             (map path filters) (map operand filters))"

text \<open>Running a list of computations in order, up to the first failure.\<close>

fun collectE :: "('e + 'a) list \<Rightarrow> 'e + 'a list" where
  "collectE [] = Inr []"
| "collectE (m # ms) =
     (case m of
        Inl e \<Rightarrow> Inl e
      | Inr x \<Rightarrow> (case collectE ms of Inl e \<Rightarrow> Inl e | Inr xs \<Rightarrow> Inr (x # xs)))"

text \<open>
  \<open>walkExpr\<close> calls \<open>fn\<close> on every combination of one member per line, in order; the
  result here is the list of the rows \<open>fn\<close> receives. The first statement reads
  \<open>l[0]\<close>, before the test for an empty list.
\<close>

fun walkExpr :: "expr list list \<Rightarrow> planner_error + expr list list" where
  "walkExpr [] = Inl IndexOutOfRange"
| "walkExpr [curLine] = Inr (map (\<lambda>e. [e]) curLine)"
| "walkExpr (curLine # l) =
     map_sum id concat
       (collectE (map (\<lambda>e. map_sum id (map ((#) e)) (walkExpr l)) curLine))"

definition filter_row :: "filterNode \<Rightarrow> planner_error + expr list" where
  "filter_row f =
     (if operator f \<noteq> IN then Inr [operand f]
      else (case operand f of
              LiteralExprList es \<Rightarrow> Inr es
            | _ \<Rightarrow> Inl TypeAssertionFailed))"

definition buildRangesFromFilterNodes ::
  "Path list \<Rightarrow> filterNode list \<Rightarrow> planner_error + Range list" where
  "buildRangesFromFilterNodes paths filters =
     bindE (collectE (map filter_row filters)) (\<lambda>l.
       bindE (walkExpr l) (\<lambda>rows.
         collectE (map (\<lambda>row.
           if length row > length paths then Inl SliceOutOfRange
           else buildRangeFromOperator EQ (take (length row) paths) row) rows)))"

text \<open>The loop of \<open>associateIndexWithNodes\<close> over the indexed paths.\<close>

fun associate_loop ::
  "filterNodes \<Rightarrow> Path list \<Rightarrow> filterNode list \<Rightarrow> bool \<Rightarrow> filterNode list \<times> bool" where
  "associate_loop ns [] found hasIn = (found, hasIn)"
| "associate_loop ns (p # ps) found hasIn =
     (case getByPath ns p of
        None \<Rightarrow> (found, hasIn)
      | Some n \<Rightarrow>
          (let hasIn = (if operator n = IN then True else hasIn);
               found = (if \<not> hasIn \<or> (operator n = EQ \<or> operator n = IN)
                        then found @ [n] else found)
           in if operator n \<noteq> EQ \<and> operator n \<noteq> IN then (found, hasIn)
              else associate_loop ns ps found hasIn))"

text \<open>\<open>Ranges.Cost\<close> is declared elsewhere; it is the parameter \<open>rcost\<close>.\<close>

definition associateIndexWithNodes ::
  "(Range list \<Rightarrow> 64 word) \<Rightarrow> string \<Rightarrow> bool \<Rightarrow> bool \<Rightarrow> Path list \<Rightarrow> filterNodes
     \<Rightarrow> planner_error + candidate option" where
  "associateIndexWithNodes rcost treeName isIdx isUniq paths ns =
     (case associate_loop ns paths [] False of
        (found, hasIn) \<Rightarrow>
          if length found = 0 then Inr None
          else
            bindE (if \<not> hasIn then map_sum id (\<lambda>r. [r]) (buildRangeFromFilterNodes found)
                   else buildRangesFromFilterNodes paths found) (\<lambda>ranges.
              Inr (Some \<lparr>nodes = found,
                         replaceRootBy =
                           (if \<not> isIdx then [TableScan treeName ranges]
                            else [IndexScan treeName ranges]),
                         rangesCost = rcost ranges,
                         isIndex = isIdx,
                         isUnique = isUniq\<rparr>)))"

text \<open>The loop of \<open>selectIndex\<close> over the names of the table's indexes.\<close>

fun select_loop ::
  "(Range list \<Rightarrow> 64 word) \<Rightarrow> catalogCache \<Rightarrow> filterNodes \<Rightarrow> string list
     \<Rightarrow> candidate option \<Rightarrow> 64 word \<Rightarrow> planner_error + candidate option" where
  "select_loop rcost c ns [] selected cost = Inr selected"
| "select_loop rcost c ns (idxName # idxNames) selected cost =
     (case GetIndexInfo c idxName of
        Inl e \<Rightarrow> Inl (CatalogError e)
      | Inr idxInfo \<Rightarrow>
          bindE (associateIndexWithNodes rcost (IndexName idxInfo) True (Unique idxInfo)
                   (Paths idxInfo) ns) (\<lambda>cand.
            case cand of
              None \<Rightarrow> select_loop rcost c ns idxNames selected cost
            | Some cd \<Rightarrow>
                (case selected of
                   None \<Rightarrow> select_loop rcost c ns idxNames (Some cd) (Cost cd)
                 | Some sel \<Rightarrow>
                     if length (nodes sel) < length (nodes cd)
                        \<or> (length (nodes sel) = length (nodes cd) \<and> sint (Cost cd) < sint cost)
                     then select_loop rcost c ns idxNames (Some cd) (Cost cd)
                     else select_loop rcost c ns idxNames selected cost)))"

text \<open>The loop that collects the indexable filters, in the order of the filters.\<close>

fun indexable_nodes :: "nat \<Rightarrow> expr list \<Rightarrow> planner_error + filterNodes" where
  "indexable_nodes i [] = Inr []"
| "indexable_nodes i (f # fs) =
     bindE (isFilterIndexable i f) (\<lambda>r.
       bindE (indexable_nodes (i + 1) fs) (\<lambda>ns.
         Inr (case r of None \<Rightarrow> ns | Some n \<Rightarrow> n # ns)))"

text \<open>
  \<open>selectIndex\<close> up to its choice: the result is the selected candidate, \<open>None\<close> when
  there is none. What follows in the source removes the filters of the candidate from
  the stream and puts \<open>replaceRootBy\<close> in place of the table scan, through
  \<open>StreamContext.removeFilterNode\<close>, which is declared elsewhere.
\<close>

definition selectIndex ::
  "(Range list \<Rightarrow> 64 word) \<Rightarrow> catalogCache \<Rightarrow> string \<Rightarrow> expr list
     \<Rightarrow> planner_error + candidate option" where
  "selectIndex rcost c tableName filters =
     bindE (indexable_nodes 0 filters) (\<lambda>ns.
       case GetTableInfo c tableName of
         Inl e \<Rightarrow> Inl (CatalogError e)
       | Inr tb \<Rightarrow>
           bindE (case GetPrimaryKey tb of
                    None \<Rightarrow> Inr None
                  | Some pk \<Rightarrow>
                      associateIndexWithNodes rcost (TableName tb) False False (tc_Paths pk) ns)
             (\<lambda>selected.
                select_loop rcost c ns (ListIndexes c tableName) selected
                  (case selected of None \<Rightarrow> 0 | Some sel \<Rightarrow> Cost sel)))"

record StreamContext =
  Stream :: Stream
  Filters :: "expr list"

definition SelectIndex ::
  "(Range list \<Rightarrow> 64 word) \<Rightarrow> catalogCache \<Rightarrow> StreamContext \<Rightarrow> planner_error + candidate option" where
  "SelectIndex rcost c sctx =
     (case Stream sctx of
        [] \<Rightarrow> Inr None
      | TableScan tableName ranges # _ \<Rightarrow>
          (case GetTableInfo c tableName of
             Inl e \<Rightarrow> Inl (CatalogError e)
           | Inr _ \<Rightarrow>
               if length (Filters sctx) = 0 then Inr None
               else selectIndex rcost c tableName (Filters sctx))
      | _ \<Rightarrow> Inr None)"

subsection \<open>Notions used to state the properties of the selection\<close>

text \<open>
  What \<open>isFilterIndexable\<close> guarantees of a node: the operand of \<open>IN\<close> is a literal
  list, the operand of \<open>BETWEEN\<close> is the list of the two bounds.
\<close>

definition node_ok :: "filterNode \<Rightarrow> bool" where
  "node_ok n \<longleftrightarrow>
     (if operator n = IN then is_LiteralExprList (operand n)
      else if operator n = BETWEEN then (case operand n of LiteralExprList es \<Rightarrow> length es = 2 | _ \<Rightarrow> False)
      else True)"

text \<open>
  The cost of the specification, as an integer: the ranges cost, plus 20 for an index,
  minus 10 when unique, minus the number of assigned filters. It is the cost the code
  computes whenever it fits into 64 bits.
\<close>

definition spec_cost :: "candidate \<Rightarrow> int" where
  "spec_cost c =
     sint (rangesCost c) + (if isIndex c then 20 else 0) - (if isUnique c then 10 else 0)
       - int (length (nodes c))"

definition in_int64 :: "int \<Rightarrow> bool" where
  "in_int64 k \<longleftrightarrow> - (2 ^ 63) \<le> k \<and> k < 2 ^ 63"

text \<open>
  The order of the specification: more filters first, then the lower cost; once with
  the cost as the code has it, once with the integer cost.
\<close>

definition at_least_as_good :: "candidate \<Rightarrow> candidate \<Rightarrow> bool" where
  "at_least_as_good sel cd \<longleftrightarrow>
     length (nodes cd) < length (nodes sel)
     \<or> (length (nodes cd) = length (nodes sel) \<and> sint (Cost sel) \<le> sint (Cost cd))"

definition spec_at_least_as_good :: "candidate \<Rightarrow> candidate \<Rightarrow> bool" where
  "spec_at_least_as_good sel cd \<longleftrightarrow>
     length (nodes cd) < length (nodes sel)
     \<or> (length (nodes cd) = length (nodes sel) \<and> spec_cost sel \<le> spec_cost cd)"

text \<open>
  The indexable filters in the words of section 4.7 of the specification, step 1: the
  expression is a binary operator \<open>P op E\<close> or \<open>E op P\<close> with \<open>P\<close> a path, \<open>E\<close> free of
  paths and \<open>op\<close> one of \<open>=\<close>, \<open>>\<close>, \<open>\<ge>\<close>, \<open><\<close>, \<open>\<le>\<close>; or \<open>P IN E\<close> with \<open>E\<close> a literal list
  free of paths; or \<open>P BETWEEN a AND b\<close> with both bounds free of paths.
\<close>

definition spec_indexable :: "expr \<Rightarrow> (Path \<times> Token \<times> expr) option" where
  "spec_indexable e =
     (case e of
        EOperator t l r \<Rightarrow>
          if t = IN then
            (if is_Path l \<and> is_LiteralExprList r \<and> \<not> exprContainsPath r
             then Some (the_Path l, IN, r) else None)
          else if t \<in> {EQ, GT, GTE, LT, LTE} then
            (if is_Path l \<and> \<not> exprContainsPath r then Some (the_Path l, t, r)
             else if is_Path r \<and> \<not> exprContainsPath l then Some (the_Path r, t, l)
             else None)
          else None
      | BetweenOperator x a b \<Rightarrow>
          if is_Path x \<and> \<not> exprContainsPath a \<and> \<not> exprContainsPath b
          then Some (the_Path x, BETWEEN, LiteralExprList [a, b]) else None
      | _ \<Rightarrow> None)"

fun spec_nodes :: "nat \<Rightarrow> expr list \<Rightarrow> filterNodes" where
  "spec_nodes i [] = []"
| "spec_nodes i (f # fs) =
     (case spec_indexable f of
        None \<Rightarrow> spec_nodes (i + 1) fs
      | Some (p, t, e) \<Rightarrow>
          \<lparr>node = i, path = p, operator = t, operand = e\<rparr> # spec_nodes (i + 1) fs)"

text \<open>
  Step 3 of section 4.7, the association: the paths are taken from left to right, each
  with the first filter on it; a path without a filter ends the chain; a filter with
  \<open>=\<close> or \<open>IN\<close> is assigned and the chain goes on; any other filter ends the chain, and
  is itself assigned unless an \<open>IN\<close> came before it. The specification is silent on a
  range filter after an \<open>IN\<close>; its ranges for \<open>IN\<close> are exact, which leaves no place
  for one.
\<close>

fun spec_assigned :: "filterNodes \<Rightarrow> Path list \<Rightarrow> bool \<Rightarrow> filterNode list" where
  "spec_assigned ns [] seenIn = []"
| "spec_assigned ns (p # ps) seenIn =
     (case find (\<lambda>n. path n = p) ns of
        None \<Rightarrow> []
      | Some n \<Rightarrow>
          if operator n = EQ then n # spec_assigned ns ps seenIn
          else if operator n = IN then n # spec_assigned ns ps True
          else if seenIn then [] else [n])"

text \<open>
  Step 3, the ranges. Without \<open>IN\<close> there is one range over the operands of the assigned
  filters: exact for \<open>=\<close>; a minimum for \<open>>\<close> (exclusive) and \<open>\<ge>\<close>; a maximum for \<open><\<close>
  (exclusive) and \<open>\<le>\<close>; for \<open>BETWEEN\<close> a minimum and a maximum that share the equality
  prefix and end in the low and the high bound. With \<open>IN\<close> there is one exact range per
  member of the Cartesian product of the \<open>IN\<close> lists and the single equality operands.
\<close>

definition spec_range :: "filterNode list \<Rightarrow> Range" where
  "spec_range a =
     (let op = operator (last a); es = map operand a;
          none = \<lparr>r_Paths = map path a, r_Min = [], r_Max = [],
                  Exclusive = False, Exact = False\<rparr>
      in
      if op = EQ then none\<lparr>r_Min := es, Exact := True\<rparr>
      else if op = GT then none\<lparr>r_Min := es, Exclusive := True\<rparr>
      else if op = GTE then none\<lparr>r_Min := es\<rparr>
      else if op = LT then none\<lparr>r_Max := es, Exclusive := True\<rparr>
      else if op = LTE then none\<lparr>r_Max := es\<rparr>
      else if op = BETWEEN then
        (case operand (last a) of
           LiteralExprList [lo, hi] \<Rightarrow>
             none\<lparr>r_Min := butlast es @ [lo], r_Max := butlast es @ [hi]\<rparr>
         | _ \<Rightarrow> none)
      else none)"

definition spec_row :: "filterNode \<Rightarrow> expr list" where
  "spec_row n =
     (if operator n = IN then (case operand n of LiteralExprList es \<Rightarrow> es | _ \<Rightarrow> [])
      else [operand n])"

definition spec_ranges :: "Path list \<Rightarrow> filterNode list \<Rightarrow> Range list" where
  "spec_ranges paths a =
     (if list_ex (\<lambda>n. operator n = IN) a then
        map (\<lambda>row. \<lparr>r_Paths = take (length row) paths, r_Min = row, r_Max = [],
                     Exclusive = False, Exact = True\<rparr>)
          (product_lists (map spec_row a))
      else [spec_range a])"

text \<open>
  The candidate of the specification for one tree (the primary key or an index): none
  when no filter is assigned, and otherwise the assigned filters, the scan of the tree
  over the ranges, and the cost of the ranges.
\<close>

definition spec_candidate ::
  "(Range list \<Rightarrow> 64 word) \<Rightarrow> string \<Rightarrow> bool \<Rightarrow> bool \<Rightarrow> Path list \<Rightarrow> filterNodes
     \<Rightarrow> candidate option" where
  "spec_candidate rcost treeName isIdx isUniq paths ns =
     (let a = spec_assigned ns paths False in
      if a = [] then None
      else Some \<lparr>nodes = a,
                 replaceRootBy =
                   [if isIdx then IndexScan treeName (spec_ranges paths a)
                    else TableScan treeName (spec_ranges paths a)],
                 rangesCost = rcost (spec_ranges paths a),
                 isIndex = isIdx,
                 isUnique = isUniq\<rparr>)"

text \<open>
  The candidates of the specification for a table and the filters of a stream: the one
  of the primary key, when the table has one, and the one of every index declared on
  the table.
\<close>

definition spec_candidates ::
  "(Range list \<Rightarrow> 64 word) \<Rightarrow> catalogCache \<Rightarrow> string \<Rightarrow> TableInfo \<Rightarrow> expr list
     \<Rightarrow> candidate set" where
  "spec_candidates rcost c tableName tb fs =
     {cd. \<exists>pk. GetPrimaryKey tb = Some pk
            \<and> spec_candidate rcost (TableName tb) False False (tc_Paths pk) (spec_nodes 0 fs)
                = Some cd}
     \<union> {cd. \<exists>idx \<in> set (GetTableIndexes c tableName).
            spec_candidate rcost (IndexName idx) True (Unique idx) (Paths idx) (spec_nodes 0 fs)
              = Some cd}"

text \<open>
  The index map of a cache is well formed when no name occurs twice and every index is
  filed under its own name, as \<open>Add\<close> and \<open>Load\<close> file it.
\<close>

definition wf_indexes :: "catalogCache \<Rightarrow> bool" where
  "wf_indexes c \<longleftrightarrow>
     distinct (map fst (indexes c)) \<and> list_all (\<lambda>(k, idx). IndexName idx = k) (indexes c)"

subsection \<open>Notions used to state the properties of the catalog\<close>

text \<open>
  A mutation of the cache, and a transaction's run of mutations: a mutation that fails
  returns its error and leaves the state as it was, and the run goes on. The run
  returns the final state and the number of mutations that went through.
\<close>

datatype cache_op = OpAdd relation | OpReplace relation | OpDelete rel_type string

definition apply_op :: "(relation \<Rightarrow> string) \<Rightarrow> db \<Rightarrow> cache_op \<Rightarrow> db_error + db" where
  "apply_op gbn st op =
     (case op of
        OpAdd r \<Rightarrow> map_sum id snd (Cache_Add gbn st r)
      | OpReplace r \<Rightarrow> Cache_Replace st r
      | OpDelete tp name \<Rightarrow> map_sum id snd (Cache_Delete st tp name))"

fun apply_ops :: "(relation \<Rightarrow> string) \<Rightarrow> db \<Rightarrow> cache_op list \<Rightarrow> db \<times> nat" where
  "apply_ops gbn st [] = (st, 0)"
| "apply_ops gbn st (op # ops) =
     (case apply_op gbn st op of
        Inl e \<Rightarrow> apply_ops gbn st ops
      | Inr st' \<Rightarrow> (case apply_ops gbn st' ops of (st'', n) \<Rightarrow> (st'', n + 1)))"

text \<open>
  Two caches hold the same Go maps when their three association lists denote the same
  maps; the order inside a list is not part of a Go map.
\<close>

definition same_maps :: "catalogCache \<Rightarrow> catalogCache \<Rightarrow> bool" where
  "same_maps c c' \<longleftrightarrow>
     map_of (tables c) = map_of (tables c')
     \<and> map_of (indexes c) = map_of (indexes c')
     \<and> map_of (sequences c) = map_of (sequences c')"

text \<open>
  The state \<open>DropTable\<close> reaches after its loop over the indexes \<open>idxs\<close> of the table,
  when every step of the loop goes through.
\<close>

definition after_DropTable_indexes :: "db \<Rightarrow> IndexInfo list \<Rightarrow> db" where
  "after_DropTable_indexes st idxs =
     st\<lparr>Cache := (Cache st)\<lparr>indexes :=
            filter (\<lambda>(k, v). k \<notin> IndexName ` set idxs) (indexes (Cache st))\<rparr>,
        rows := (\<lambda>n. if n \<in> IndexName ` set idxs then None else rows st n),
        store := (\<lambda>ns. if ns \<in> idx_StoreNamespace ` set idxs then Map.empty else store st ns),
        OnRollbackHooks :=
          OnRollbackHooks st @ map (\<lambda>idx. HookSet (IndexName idx) (RIndex idx)) idxs\<rparr>"

text \<open>Some SET target path is a path of the primary key.\<close>

definition pk_modified :: "TableConstraint \<Rightarrow> (Path \<times> expr) list \<Rightarrow> bool" where
  "pk_modified pk pairs = list_ex (\<lambda>(p, e). p \<in> set (tc_Paths pk)) pairs"

section \<open>A small catalog used in the worked instances\<close>

definition ex_no_owner :: owner where
  "ex_no_owner = \<lparr>owner_TableName = [], owner_Paths = []\<rparr>"

definition ex_table :: TableInfo where
  "ex_table =
     \<lparr>TableName = ''foo'', StoreNamespace = 101, ReadOnly = False, DocidSequenceName = [],
      TableConstraints = [\<lparr>PrimaryKey = True, tc_Paths = [[FieldName ''k'']]\<rparr>]\<rparr>"

definition ex_index :: IndexInfo where
  "ex_index =
     \<lparr>IndexName = ''idx_foo_a'', idx_TableName = ''foo'', idx_StoreNamespace = 102,
      Paths = [[FieldName ''a'']], Unique = False, Owner = ex_no_owner\<rparr>"

definition ex_cache :: catalogCache where
  "ex_cache =
     \<lparr>tables = [(''foo'', ex_table)], indexes = [(''idx_foo_a'', ex_index)], sequences = []\<rparr>"

definition ex_sctx :: StreamContext where
  "ex_sctx =
     \<lparr>Stream = [TableScan ''foo'' []],
      Filters = [EOperator EQ (EPath [FieldName ''a'']) (ELiteralValue (NewIntegerValue 1))]\<rparr>"

text \<open>
  A stream with one filter on the indexed path \<open>a\<close> and one on the primary key \<open>k\<close>,
  the candidates the primary key and the index give for it, and a ranges cost that
  counts the ranges.
\<close>

definition ex_sctx_tie :: StreamContext where
  "ex_sctx_tie =
     \<lparr>Stream = [TableScan ''foo'' []],
      Filters = [EOperator EQ (EPath [FieldName ''a'']) (ELiteralValue (NewIntegerValue 1)),
                 EOperator EQ (EPath [FieldName ''k'']) (ELiteralValue (NewIntegerValue 2))]\<rparr>"

definition ex_rcost :: "Range list \<Rightarrow> 64 word" where
  "ex_rcost rs = of_nat (length rs)"

definition ex_pk_candidate :: candidate where
  "ex_pk_candidate =
     \<lparr>nodes = [\<lparr>node = 1, path = [FieldName ''k''], operator = EQ,
                 operand = ELiteralValue (NewIntegerValue 2)\<rparr>],
      replaceRootBy =
        [TableScan ''foo''
           [\<lparr>r_Paths = [[FieldName ''k'']], r_Min = [ELiteralValue (NewIntegerValue 2)],
             r_Max = [], Exclusive = False, Exact = True\<rparr>]],
      rangesCost = 1, isIndex = False, isUnique = False\<rparr>"

definition ex_idx_candidate :: candidate where
  "ex_idx_candidate =
     \<lparr>nodes = [\<lparr>node = 0, path = [FieldName ''a''], operator = EQ,
                 operand = ELiteralValue (NewIntegerValue 1)\<rparr>],
      replaceRootBy =
        [IndexScan ''idx_foo_a''
           [\<lparr>r_Paths = [[FieldName ''a'']], r_Min = [ELiteralValue (NewIntegerValue 1)],
             r_Max = [], Exclusive = False, Exact = True\<rparr>]],
      rangesCost = 1, isIndex = True, isUnique = False\<rparr>"

definition ex_db :: db where
  "ex_db =
     \<lparr>Cache = ex_cache,
      rows = [''foo'' \<mapsto> tableInfoToDocument ex_table,
              ''idx_foo_a'' \<mapsto> indexInfoToDocument ex_index],
      store = (\<lambda>ns. [[1] \<mapsto> [7]]),
      SessionReadOnly = False,
      OnRollbackHooks = []\<rparr>"

text \<open>
  The same catalog with an index whose owner names the table and no constraint paths.
\<close>

definition ex_owned_index :: IndexInfo where
  "ex_owned_index = ex_index\<lparr>Owner := \<lparr>owner_TableName = ''foo'', owner_Paths = []\<rparr>\<rparr>"

definition ex_db_owned :: db where
  "ex_db_owned =
     \<lparr>Cache = ex_cache\<lparr>indexes := [(''idx_foo_a'', ex_owned_index)]\<rparr>,
      rows = [''foo'' \<mapsto> tableInfoToDocument ex_table,
              ''idx_foo_a'' \<mapsto> indexInfoToDocument ex_owned_index],
      store = (\<lambda>ns. [[1] \<mapsto> [7]]),
      SessionReadOnly = False,
      OnRollbackHooks = []\<rparr>"

definition ex_seq_table :: TableInfo where
  "ex_seq_table =
     \<lparr>TableName = ''bar'', StoreNamespace = 103, ReadOnly = False,
      DocidSequenceName = ''bar_seq'', TableConstraints = []\<rparr>"

definition ex_seq :: Sequence where
  "ex_seq =
     \<lparr>Info = \<lparr>seq_Name = ''bar_seq'', seq_IncrementBy = 1, seq_Min = 1,
              seq_Max = 9223372036854775807, seq_Start = 1,
              seq_Owner = \<lparr>owner_TableName = ''bar'', owner_Paths = []\<rparr>\<rparr>\<rparr>"

definition ex_db_seq :: db where
  "ex_db_seq =
     \<lparr>Cache = \<lparr>tables = [(''bar'', ex_seq_table)], indexes = [],
               sequences = [(''bar_seq'', ex_seq)]\<rparr>,
      rows = [''bar'' \<mapsto> tableInfoToDocument ex_seq_table,
              ''bar_seq'' \<mapsto> sequenceInfoToDocument (Info ex_seq)],
      store = (\<lambda>ns. [[1] \<mapsto> [7]]),
      SessionReadOnly = False,
      OnRollbackHooks = []\<rparr>"

definition ex_ops :: "cache_op list" where
  "ex_ops =
     [OpDelete RelationIndexType ''idx_foo_a'',
      OpAdd (RIndex (ex_index\<lparr>IndexName := []\<rparr>)),
      OpAdd (RTable ex_table),
      OpReplace (RTable (ex_table\<lparr>ReadOnly := True\<rparr>))]"

definition ex_update :: UpdateStmt where
  "ex_update =
     \<lparr>upd_TableName = ''foo'',
      SetPairs = Some [([FieldName ''k''], ELiteralValue (NewIntegerValue 5))],
      UnsetFields = None, WhereExpr = None\<rparr>"

text \<open>
  A scan of two ranges with one row each, and a consumer that records the key of every
  row it is given and answers \<open>ErrStreamClosed\<close> each time.
\<close>

definition ex_scan :: TableScanOperator where
  "ex_scan = \<lparr>scan_TableName = ''foo'', Ranges = Some
      [\<lparr>r_Paths = [[FieldName ''k'']], r_Min = [ELiteralValue (NewIntegerValue 1)], r_Max = [],
        Exclusive = False, Exact = True\<rparr>,
       \<lparr>r_Paths = [[FieldName ''k'']], r_Min = [ELiteralValue (NewIntegerValue 2)], r_Max = [],
        Exclusive = False, Exact = True\<rparr>], Reverse = False\<rparr>"

definition ex_hits :: "nat option \<Rightarrow> bool \<Rightarrow> (Key \<times> Document) list" where
  "ex_hits rng reverse =
     (case rng of
        None \<Rightarrow> [([1], []), ([2], [])]
      | Some n \<Rightarrow> (if n = 0 then [([1], [])] else if n = 1 then [([2], [])] else []))"

definition ex_closing_consumer :: "Key list \<Rightarrow> Environment \<Rightarrow> db_error option \<times> Key list" where
  "ex_closing_consumer seen out =
     (Some ErrStreamClosed, seen @ (case env_DocPKKey out of None \<Rightarrow> [] | Some k \<Rightarrow> [k]))"


section \<open>Composite keys: properties\<close>

lemma EncodeValue_nonempty:
  "EncodeValue tg on_nil v = Inr bs \<Longrightarrow> Type v = NullValue \<or> V v \<noteq> None \<Longrightarrow> bs \<noteq> []"
  by (cases v; cases "Type v"; cases "V v"; cases "the (V v)")
     (auto simp: EncodeText_def EncodeBlob_def split: sum.splits if_splits)

lemma NewKey_single:
  assumes "EncodeValue tg on_nil a = Inr ea" and "Type a = NullValue \<or> V a \<noteq> None"
  shows "NewKey (EncodeValue tg on_nil) [a] = Inr ea"
  using assms by (auto simp: NewKey_def NewArrayValue_def)

lemma NewKey_pair:
  assumes "EncodeValue tg on_nil a = Inr ea" and "EncodeValue tg on_nil b = Inr eb"
    and "Type a = NullValue \<or> V a \<noteq> None"
  shows "NewKey (EncodeValue tg on_nil) [a, b] = Inr (ea @ eb)"
  using assms by (auto simp: NewKey_def NewArrayValue_def)

text \<open>
  C5. For values \<open>a\<close> and \<open>b\<close> that carry a payload (or are Null) and that the codec
  encodes, \<open>NewKey\<close> succeeds on \<open>(a)\<close> and on \<open>(a, b)\<close>, and the key of \<open>(a)\<close> is a
  strict prefix of the key of \<open>(a, b)\<close>.
\<close>

theorem NewKey_strict_prefix:
  assumes "EncodeValue tg on_nil a = Inr ea" and "EncodeValue tg on_nil b = Inr eb"
    and "Type a = NullValue \<or> V a \<noteq> None" and "Type b = NullValue \<or> V b \<noteq> None"
  shows "NewKey (EncodeValue tg on_nil) [a] = Inr ea
         \<and> NewKey (EncodeValue tg on_nil) [a, b] = Inr (ea @ eb)
         \<and> strict_prefix ea (ea @ eb)"
proof -
  have "eb \<noteq> []" using assms(2,4) by (rule EncodeValue_nonempty)
  then have "strict_prefix ea (ea @ eb)" by (simp add: strict_prefix_def)
  with NewKey_single[OF assms(1,3)] NewKey_pair[OF assms(1,2,3)] show ?thesis by blast
qed

theorem NewKey_strict_prefix_witness:
  "NewKey (EncodeValue
       \<lparr>tagNull = 2, tagFalse = 3, tagTrue = 4, tagInteger = 5, tagDouble = 6, tagText = 7,
        tagBlob = 8, ArrayStart = 9, ArrayEnd = 10, DocStart = 11, DocEnd = 12\<rparr>
       (\<lambda>t. Inl TypeMismatch)) [Value BooleanValue (Some (PBool True))] = Inr [4]
   \<and> NewKey (EncodeValue
       \<lparr>tagNull = 2, tagFalse = 3, tagTrue = 4, tagInteger = 5, tagDouble = 6, tagText = 7,
        tagBlob = 8, ArrayStart = 9, ArrayEnd = 10, DocStart = 11, DocEnd = 12\<rparr>
       (\<lambda>t. Inl TypeMismatch))
       [Value BooleanValue (Some (PBool True)), Value TextValue (Some (PText [0, 65]))]
     = Inr [4, 7, 0, 255, 65, 0]
   \<and> strict_prefix [4 :: byte] [4, 7, 0, 255, 65, 0]"
  using NewKey_strict_prefix
    [of "\<lparr>tagNull = 2, tagFalse = 3, tagTrue = 4, tagInteger = 5, tagDouble = 6, tagText = 7,
          tagBlob = 8, ArrayStart = 9, ArrayEnd = 10, DocStart = 11, DocEnd = 12\<rparr>"
        "\<lambda>t. Inl TypeMismatch" "Value BooleanValue (Some (PBool True))" "[4]"
        "Value TextValue (Some (PText [0, 65]))" "[7, 0, 255, 65, 0]"]
  by (simp add: EncodeText_def escape_zero_def)

lemma EncodeValues_reject_nil:
  "v \<in> set vs \<Longrightarrow> Type v \<noteq> NullValue \<Longrightarrow> V v = None
     \<Longrightarrow> \<exists>e. EncodeValues tg reject_nil vs = Inl e"
proof (induction vs)
  case Nil
  then show ?case by simp
next
  case (Cons a vs)
  show ?case
  proof (cases "EncodeValue tg reject_nil a")
    case (Inl e)
    then show ?thesis by simp
  next
    case (Inr b)
    have "a \<noteq> v"
    proof
      assume "a = v"
      with Cons.prems(2,3) have "EncodeValue tg reject_nil a = Inl InvalidValue"
        by (cases v; cases "Type v") (simp_all add: reject_nil_def)
      with Inr show False by simp
    qed
    with Cons.prems(1) have "v \<in> set vs" by simp
    from Cons.IH[OF this Cons.prems(2,3)] obtain e where "EncodeValues tg reject_nil vs = Inl e"
      by (elim exE)
    with Inr show ?thesis by simp
  qed
qed

lemma EncodeValues_first_nil:
  "EncodeValues tg reject_nil pre = Inr bs \<Longrightarrow> Type v \<noteq> NullValue \<Longrightarrow> V v = None
     \<Longrightarrow> EncodeValues tg reject_nil (pre @ v # post) = Inl InvalidValue"
proof (induction pre arbitrary: bs)
  case Nil
  then show ?case by (cases v; cases "Type v") (simp_all add: reject_nil_def)
next
  case (Cons a pre)
  then show ?case by (auto split: sum.splits)
qed

lemma EncodeValues_hd_payload:
  "EncodeValues tg reject_nil (a # pre) = Inr bs \<Longrightarrow> Type a = NullValue \<or> V a \<noteq> None"
  by (cases a; cases "Type a"; cases "V a") (auto simp: reject_nil_def split: sum.splits)

text \<open>
  C6. With an encoder that rejects a value without payload, as section 4.2 of the
  specification has it, \<open>NewKey\<close> returns no key for a list in which some value has no
  payload and is not of the Null type. When the values before that one are encoded
  without error, the error is "cannot encode nil value" of \<open>NewKey\<close> itself for the first
  position, and the encoder's \<open>InvalidValue\<close> for a later one.
\<close>

theorem NewKey_nil_fails:
  assumes "v \<in> set vs" and "Type v \<noteq> NullValue" and "V v = None"
  shows "(\<exists>e. NewKey (EncodeValue tg reject_nil) vs = Inl e)
         \<and> (\<forall>pre post bs. vs = pre @ v # post \<and> EncodeValues tg reject_nil pre = Inr bs
              \<longrightarrow> NewKey (EncodeValue tg reject_nil) vs
                    = Inl (if pre = [] then CannotEncodeNilValue else InvalidValue))"
proof (intro conjI allI impI)
  from EncodeValues_reject_nil[OF assms, of tg] obtain e where
    e: "EncodeValues tg reject_nil vs = Inl e" by (elim exE)
  from assms(1) obtain v0 rest where vs: "vs = v0 # rest" by (cases vs) auto
  show "\<exists>e. NewKey (EncodeValue tg reject_nil) vs = Inl e"
    using e unfolding vs by (simp add: NewKey_def NewArrayValue_def)
next
  fix pre post bs
  assume h: "vs = pre @ v # post \<and> EncodeValues tg reject_nil pre = Inr bs"
  show "NewKey (EncodeValue tg reject_nil) vs
          = Inl (if pre = [] then CannotEncodeNilValue else InvalidValue)"
  proof (cases pre)
    case Nil
    with h assms(2,3) show ?thesis by (simp add: NewKey_def)
  next
    case (Cons a pre')
    with h have "Type a = NullValue \<or> V a \<noteq> None" using EncodeValues_hd_payload by blast
    moreover have "EncodeValues tg reject_nil (pre @ v # post) = Inl InvalidValue"
      using h assms(2,3) by (simp add: EncodeValues_first_nil)
    ultimately show ?thesis using h Cons
      by (simp add: NewKey_def NewArrayValue_def del: EncodeValues.simps)
  qed
qed

theorem NewKey_nil_fails_witness:
  "NewKey (EncodeValue
       \<lparr>tagNull = 2, tagFalse = 3, tagTrue = 4, tagInteger = 5, tagDouble = 6, tagText = 7,
        tagBlob = 8, ArrayStart = 9, ArrayEnd = 10, DocStart = 11, DocEnd = 12\<rparr> reject_nil)
     [Value BooleanValue (Some (PBool True)), Value IntegerValue None] = Inl InvalidValue
   \<and> NewKey (EncodeValue
       \<lparr>tagNull = 2, tagFalse = 3, tagTrue = 4, tagInteger = 5, tagDouble = 6, tagText = 7,
        tagBlob = 8, ArrayStart = 9, ArrayEnd = 10, DocStart = 11, DocEnd = 12\<rparr> reject_nil)
     [Value IntegerValue None, Value BooleanValue (Some (PBool True))]
       = Inl CannotEncodeNilValue"
proof -
  let ?tg = "\<lparr>tagNull = 2, tagFalse = 3, tagTrue = 4, tagInteger = 5, tagDouble = 6,
              tagText = 7, tagBlob = 8, ArrayStart = 9, ArrayEnd = 10, DocStart = 11,
              DocEnd = 12\<rparr> :: codec_tags"
  let ?t = "Value BooleanValue (Some (PBool True))"
  let ?n = "Value IntegerValue None"
  have "\<forall>pre post bs. [?t, ?n] = pre @ ?n # post \<and> EncodeValues ?tg reject_nil pre = Inr bs
          \<longrightarrow> NewKey (EncodeValue ?tg reject_nil) [?t, ?n]
                = Inl (if pre = [] then CannotEncodeNilValue else InvalidValue)"
    using NewKey_nil_fails[of ?n "[?t, ?n]" ?tg] by simp
  from this[rule_format, of "[?t]" "[]" "[4]"]
  have a: "NewKey (EncodeValue ?tg reject_nil) [?t, ?n] = Inl InvalidValue" by simp
  have "\<forall>pre post bs. [?n, ?t] = pre @ ?n # post \<and> EncodeValues ?tg reject_nil pre = Inr bs
          \<longrightarrow> NewKey (EncodeValue ?tg reject_nil) [?n, ?t]
                = Inl (if pre = [] then CannotEncodeNilValue else InvalidValue)"
    using NewKey_nil_fails[of ?n "[?n, ?t]" ?tg] by simp
  from this[rule_format, of "[]" "[?t]" "[]"]
  have b: "NewKey (EncodeValue ?tg reject_nil) [?n, ?t] = Inl CannotEncodeNilValue" by simp
  from a b show ?thesis by (intro conjI)
qed

section \<open>Index selection: properties\<close>

lemma operatorCanUseIndex_ok:
  "operatorCanUseIndex e = Inr (Some (p, e')) \<Longrightarrow>
     node_ok \<lparr>node = f, path = p, operator = op_Token e, operand = e'\<rparr>"
  by (cases e) (auto simp: operatorCanUseIndex_def node_ok_def Let_def split: if_splits expr.splits)

lemma operatorCanUseIndex_err:
  "operatorCanUseIndex e = Inl x \<Longrightarrow> x = TypeAssertionFailed \<and> (\<exists>l r. e = EOperator BETWEEN l r)"
  by (cases e) (auto simp: operatorCanUseIndex_def Let_def split: if_splits expr.splits)

lemma isFilterIndexable_SomeD:
  "isFilterIndexable f e = Inr (Some n) \<Longrightarrow>
     \<exists>p e'. operatorCanUseIndex e = Inr (Some (p, e'))
            \<and> n = \<lparr>node = f, path = p, operator = op_Token e, operand = e'\<rparr>"
  by (cases "operatorCanUseIndex e")
     (auto simp: isFilterIndexable_def bindE_def split: if_splits option.splits)

lemma isFilterIndexable_ok:
  "isFilterIndexable f e = Inr (Some n) \<Longrightarrow> node_ok n"
  using isFilterIndexable_SomeD operatorCanUseIndex_ok by blast

lemma isFilterIndexable_err:
  "isFilterIndexable f e = Inl x \<Longrightarrow> x = TypeAssertionFailed \<and> (\<exists>l r. e = EOperator BETWEEN l r)"
  by (cases "operatorCanUseIndex e")
     (auto simp: isFilterIndexable_def bindE_def split: if_splits option.splits
           dest: operatorCanUseIndex_err)

lemma collectE_Inr_map: "collectE (map (\<lambda>e. Inr (f e)) xs) = Inr (map f xs)"
  by (induction xs) auto

lemma collectE_Inl: "collectE ms = Inl e \<Longrightarrow> Inl e \<in> set ms"
  by (induction ms) (auto split: sum.splits)

lemma collectE_length: "collectE ms = Inr xs \<Longrightarrow> length xs = length ms"
  by (induction ms arbitrary: xs) (auto split: sum.splits)

lemma collectE_all_Inr: "\<forall>m \<in> set ms. \<exists>x. m = Inr x \<Longrightarrow> \<exists>xs. collectE ms = Inr xs"
  by (induction ms) (auto split: sum.splits)

lemma walkExpr_rows:
  "l \<noteq> [] \<Longrightarrow> \<exists>rows. walkExpr l = Inr rows \<and> (\<forall>row \<in> set rows. length row = length l)"
proof (induction l)
  case Nil
  then show ?case by simp
next
  case (Cons curLine l)
  show ?case
  proof (cases l)
    case Nil
    then show ?thesis by auto
  next
    case (Cons v va)
    with Cons.IH obtain rows where r: "walkExpr (v # va) = Inr rows"
      and len: "\<forall>row \<in> set rows. length row = length (v # va)" by auto
    have "collectE (map (\<lambda>e. map_sum id (map ((#) e)) (walkExpr (v # va))) curLine)
            = Inr (map (\<lambda>e. map ((#) e) rows) curLine)"
      using r by (simp add: collectE_Inr_map)
    then show ?thesis using len Cons by auto
  qed
qed

lemma indexable_nodes_ok:
  "indexable_nodes i fs = Inr ns \<Longrightarrow> n \<in> set ns \<Longrightarrow> node_ok n"
proof (induction fs arbitrary: i ns)
  case Nil
  then show ?case by simp
next
  case (Cons f fs)
  from Cons.prems(1) obtain r ns' where r: "isFilterIndexable i f = Inr r"
    and ns': "indexable_nodes (i + 1) fs = Inr ns'"
    and ns: "ns = (case r of None \<Rightarrow> ns' | Some n \<Rightarrow> n # ns')"
    by (auto simp: bindE_def split: sum.splits)
  show ?case
  proof (cases r)
    case None
    with ns Cons.prems(2) Cons.IH[OF ns'] show ?thesis by simp
  next
    case (Some m)
    with ns Cons.prems(2) have "n = m \<or> n \<in> set ns'" by auto
    then show ?thesis
      using Cons.IH[OF ns'] isFilterIndexable_ok r Some by blast
  qed
qed

lemma indexable_nodes_err:
  "indexable_nodes i fs = Inl x \<Longrightarrow>
     x = TypeAssertionFailed \<and> (\<exists>l r. EOperator BETWEEN l r \<in> set fs)"
proof (induction fs arbitrary: i)
  case Nil
  then show ?case by simp
next
  case (Cons f fs)
  show ?case
  proof (cases "isFilterIndexable i f")
    case (Inl e)
    with Cons.prems have "x = e" by (simp add: bindE_def)
    with isFilterIndexable_err[OF Inl] show ?thesis by auto
  next
    case (Inr r)
    with Cons.prems have "indexable_nodes (i + 1) fs = Inl x"
      by (auto simp: bindE_def split: sum.splits)
    from Cons.IH[OF this] show ?thesis by auto
  qed
qed

lemma getByPath_mem: "getByPath ns p = Some n \<Longrightarrow> n \<in> set ns"
  by (auto simp: getByPath_def find_Some_iff)

lemma associate_loop_inv:
  "associate_loop ns ps found hasIn = (found', hasIn') \<Longrightarrow>
     (hasIn \<longrightarrow> found \<noteq> []) \<Longrightarrow> set found \<subseteq> set ns \<Longrightarrow>
     (hasIn' \<longrightarrow> found' \<noteq> []) \<and> set found' \<subseteq> set ns
     \<and> length found' \<le> length found + length ps"
proof (induction ps arbitrary: found hasIn)
  case Nil
  then show ?case by auto
next
  case (Cons p ps)
  show ?case
  proof (cases "getByPath ns p")
    case None
    with Cons.prems show ?thesis by auto
  next
    case (Some n)
    then have mem: "n \<in> set ns" by (rule getByPath_mem)
    define hasIn2 where "hasIn2 = (if operator n = IN then True else hasIn)"
    define found2 where "found2 = (if \<not> hasIn2 \<or> (operator n = EQ \<or> operator n = IN)
                        then found @ [n] else found)"
    have inv2: "hasIn2 \<longrightarrow> found2 \<noteq> []" "set found2 \<subseteq> set ns"
      "length found2 \<le> length found + 1"
      using Cons.prems(2,3) mem by (auto simp: hasIn2_def found2_def)
    show ?thesis
    proof (cases "operator n \<noteq> EQ \<and> operator n \<noteq> IN")
      case True
      with Cons.prems(1) Some have "found' = found2" "hasIn' = hasIn2"
        by (auto simp: Let_def hasIn2_def found2_def)
      with inv2 show ?thesis by auto
    next
      case False
      with Cons.prems(1) Some have "associate_loop ns ps found2 hasIn2 = (found', hasIn')"
        by (auto simp: Let_def hasIn2_def found2_def)
      from Cons.IH[OF this inv2(1) inv2(2)] inv2(3) show ?thesis by auto
    qed
  qed
qed

lemma buildRangeFromOperator_EQ: "\<exists>r. buildRangeFromOperator EQ paths el = Inr r"
  by (simp add: buildRangeFromOperator_def)

lemma buildRangeFromFilterNodes_total:
  assumes "found \<noteq> []" and "\<forall>n \<in> set found. node_ok n"
  shows "\<exists>r. buildRangeFromFilterNodes found = Inr r"
proof -
  have ok: "node_ok (last found)" using assms by simp
  have l: "last (map operand found) = operand (last found)"
    using assms(1) by (simp add: last_map)
  show ?thesis
  proof (cases "operator (last found) = BETWEEN")
    case True
    with ok obtain es where "operand (last found) = LiteralExprList es" "length es = 2"
      by (auto simp: node_ok_def split: expr.splits)
    with True l assms(1) show ?thesis
      by (simp add: buildRangeFromFilterNodes_def buildRangeFromOperator_def Let_def)
  next
    case False
    with assms(1) show ?thesis
      by (simp add: buildRangeFromFilterNodes_def buildRangeFromOperator_def Let_def)
  qed
qed

lemma filter_row_total: "node_ok f \<Longrightarrow> \<exists>r. filter_row f = Inr r"
  by (auto simp: filter_row_def node_ok_def split: expr.splits if_splits)

lemma buildRangesFromFilterNodes_total:
  assumes "found \<noteq> []" and "\<forall>n \<in> set found. node_ok n" and "length found \<le> length paths"
  shows "\<exists>r. buildRangesFromFilterNodes paths found = Inr r"
proof -
  have "\<forall>m \<in> set (map filter_row found). \<exists>x. m = Inr x"
    using assms(2) filter_row_total by auto
  then obtain l where l: "collectE (map filter_row found) = Inr l"
    using collectE_all_Inr by blast
  then have len: "length l = length found" using collectE_length by fastforce
  with assms(1) have "l \<noteq> []" by auto
  then obtain rows where rows: "walkExpr l = Inr rows"
    and rlen: "\<forall>row \<in> set rows. length row = length l" using walkExpr_rows by blast
  have "\<forall>m \<in> set (map (\<lambda>row. if length row > length paths then Inl SliceOutOfRange
                 else buildRangeFromOperator EQ (take (length row) paths) row) rows).
          \<exists>x. m = Inr x"
    using rlen len assms(3) buildRangeFromOperator_EQ by auto
  then obtain rs where "collectE (map (\<lambda>row. if length row > length paths then Inl SliceOutOfRange
                 else buildRangeFromOperator EQ (take (length row) paths) row) rows) = Inr rs"
    using collectE_all_Inr by blast
  with l rows show ?thesis by (simp add: buildRangesFromFilterNodes_def bindE_def)
qed

lemma associateIndexWithNodes_total:
  assumes "\<forall>n \<in> set ns. node_ok n"
  shows "\<exists>r. associateIndexWithNodes rcost treeName isIdx isUniq paths ns = Inr r"
proof -
  obtain found hasIn where a: "associate_loop ns paths [] False = (found, hasIn)"
    by (cases "associate_loop ns paths [] False")
  from associate_loop_inv[OF a] have inv: "hasIn \<longrightarrow> found \<noteq> []" "set found \<subseteq> set ns"
    "length found \<le> length paths" by auto
  have ok: "\<forall>n \<in> set found. node_ok n" using inv(2) assms by auto
  show ?thesis
  proof (cases "found = []")
    case True
    with a show ?thesis by (simp add: associateIndexWithNodes_def)
  next
    case False
    show ?thesis
    proof (cases hasIn)
      case True
      from buildRangesFromFilterNodes_total[OF False ok inv(3)] obtain r
        where "buildRangesFromFilterNodes paths found = Inr r" by blast
      with a False True show ?thesis by (simp add: associateIndexWithNodes_def bindE_def)
    next
      case hf: False
      from buildRangeFromFilterNodes_total[OF False ok] obtain r
        where "buildRangeFromFilterNodes found = Inr r" by blast
      with a False hf show ?thesis by (simp add: associateIndexWithNodes_def bindE_def)
    qed
  qed
qed

lemma associateIndexWithNodes_Some:
  "associateIndexWithNodes rcost treeName isIdx isUniq paths ns = Inr (Some cd) \<Longrightarrow>
     isIndex cd = isIdx \<and> isUnique cd = isUniq \<and> nodes cd \<noteq> []
     \<and> nodes cd = fst (associate_loop ns paths [] False)"
  by (auto simp: associateIndexWithNodes_def bindE_def split: prod.splits if_splits sum.splits)

lemma select_loop_total:
  assumes "\<forall>n \<in> set ns. node_ok n"
    and "\<forall>name \<in> set names. \<exists>idx. GetIndexInfo c name = Inr idx"
  shows "\<exists>r. select_loop rcost c ns names selected cost = Inr r"
  using assms(2)
proof (induction names arbitrary: selected cost)
  case Nil
  then show ?case by simp
next
  case (Cons name names)
  then obtain idx where idx: "GetIndexInfo c name = Inr idx" by auto
  obtain cand where cand: "associateIndexWithNodes rcost (IndexName idx) True (Unique idx)
                   (Paths idx) ns = Inr cand"
    using associateIndexWithNodes_total[OF assms(1)] by blast
  have IH: "\<exists>r. select_loop rcost c ns names s k = Inr r" for s k
    using Cons by auto
  show ?case
    using idx cand IH by (auto simp: bindE_def split: option.splits)
qed

lemma alag_refl: "at_least_as_good a a"
  by (simp add: at_least_as_good_def)

lemma alag_trans: "at_least_as_good a b \<Longrightarrow> at_least_as_good b c \<Longrightarrow> at_least_as_good a c"
  by (auto simp: at_least_as_good_def)

lemma select_loop_best:
  assumes "select_loop rcost c ns names selected cost = Inr res"
    and "\<And>s. selected = Some s \<Longrightarrow> cost = Cost s"
  shows "(\<forall>s. selected = Some s \<longrightarrow> (\<exists>sel. res = Some sel \<and> at_least_as_good sel s))
       \<and> (\<forall>name idx cd. name \<in> set names \<and> GetIndexInfo c name = Inr idx
             \<and> associateIndexWithNodes rcost (IndexName idx) True (Unique idx) (Paths idx) ns
                 = Inr (Some cd)
             \<longrightarrow> (\<exists>sel. res = Some sel \<and> at_least_as_good sel cd))
       \<and> (\<forall>sel. res = Some sel \<longrightarrow> selected = Some sel
             \<or> (\<exists>name \<in> set names. \<exists>idx. GetIndexInfo c name = Inr idx
                  \<and> associateIndexWithNodes rcost (IndexName idx) True (Unique idx) (Paths idx) ns
                      = Inr (Some sel)))"
  using assms
proof (induction names arbitrary: selected cost)
  case Nil
  then show ?case by (auto intro: alag_refl)
next
  case (Cons name names)
  from Cons.prems(1) obtain idx where idx: "GetIndexInfo c name = Inr idx"
    by (auto split: sum.splits)
  from Cons.prems(1) idx obtain cand where cand:
    "associateIndexWithNodes rcost (IndexName idx) True (Unique idx) (Paths idx) ns = Inr cand"
    by (auto simp: bindE_def split: sum.splits)
  show ?case
  proof (cases cand)
    case None
    with Cons.prems(1) idx cand
    have step: "select_loop rcost c ns names selected cost = Inr res"
      by (simp add: bindE_def)
    from Cons.IH[OF step Cons.prems(2)] idx cand None show ?thesis by auto
  next
    case (Some cd)
    show ?thesis
    proof (cases selected)
      case None
      with Cons.prems(1) idx cand Some
      have step: "select_loop rcost c ns names (Some cd) (Cost cd) = Inr res"
        by (simp add: bindE_def)
      have "\<And>s. Some cd = Some s \<Longrightarrow> Cost cd = Cost s" by simp
      from Cons.IH[OF step this] idx cand Some None show ?thesis by auto
    next
      case sel: (Some s)
      then have cost: "cost = Cost s" using Cons.prems(2) by simp
      show ?thesis
      proof (cases "length (nodes s) < length (nodes cd)
                     \<or> (length (nodes s) = length (nodes cd) \<and> sint (Cost cd) < sint cost)")
        case True
        with Cons.prems(1) idx cand Some sel
        have step: "select_loop rcost c ns names (Some cd) (Cost cd) = Inr res"
          by (simp add: bindE_def)
        have "\<And>s. Some cd = Some s \<Longrightarrow> Cost cd = Cost s" by simp
        note IH = Cons.IH[OF step this]
        have cs: "at_least_as_good cd s" using True cost by (auto simp: at_least_as_good_def)
        from IH obtain r where r: "res = Some r" "at_least_as_good r cd" by auto
        then have "at_least_as_good r s" using cs alag_trans by blast
        with IH r idx cand Some sel show ?thesis by auto
      next
        case False
        with Cons.prems(1) idx cand Some sel
        have step: "select_loop rcost c ns names selected cost = Inr res"
          by (simp add: bindE_def)
        note IH = Cons.IH[OF step Cons.prems(2)]
        have sc: "at_least_as_good s cd" using False cost by (auto simp: at_least_as_good_def)
        from IH sel obtain r where r: "res = Some r" "at_least_as_good r s" by auto
        then have "at_least_as_good r cd" using sc alag_trans by blast
        with IH r idx cand Some sel show ?thesis by auto
      qed
    qed
  qed
qed

lemma wf_indexes_lookup:
  assumes "wf_indexes c" and "idx \<in> set (GetTableIndexes c t)"
  shows "GetIndexInfo c (IndexName idx) = Inr idx"
proof -
  from assms(2) obtain k where k: "(k, idx) \<in> set (indexes c)"
    by (auto simp: GetTableIndexes_def)
  with assms(1) have "IndexName idx = k" by (auto simp: wf_indexes_def list_all_iff)
  moreover have "map_of (indexes c) k = Some idx"
    using assms(1) k by (simp add: wf_indexes_def)
  ultimately show ?thesis by (simp add: GetIndexInfo_def)
qed

lemma ListIndexes_set:
  "t \<noteq> [] \<Longrightarrow> set (ListIndexes c t) = IndexName ` set (GetTableIndexes c t)"
  by (simp add: ListIndexes_def)


subsection \<open>The code builds the candidates of the specification\<close>

lemma isFilterIndexable_spec:
  assumes "\<forall>l r. e \<noteq> EOperator BETWEEN l r"
  shows "isFilterIndexable i e =
           Inr (map_option (\<lambda>(p, t, x). \<lparr>node = i, path = p, operator = t, operand = x\<rparr>)
                  (spec_indexable e))"
proof (cases e)
  case (EOperator t l r)
  with assms have "t \<noteq> BETWEEN" by auto
  with EOperator show ?thesis
    by (cases t; cases l; cases r)
       (simp_all add: isFilterIndexable_def operatorIsIndexCompatible_def operatorCanUseIndex_def
          spec_indexable_def bindE_def Let_def)
next
  case (BetweenOperator x a b)
  then show ?thesis
    by (cases x)
       (simp_all add: isFilterIndexable_def operatorIsIndexCompatible_def operatorCanUseIndex_def
          spec_indexable_def bindE_def Let_def)
qed (simp_all add: isFilterIndexable_def spec_indexable_def)

lemma indexable_nodes_spec:
  "\<forall>l r. EOperator BETWEEN l r \<notin> set fs \<Longrightarrow> indexable_nodes i fs = Inr (spec_nodes i fs)"
proof (induction fs arbitrary: i)
  case Nil
  then show ?case by simp
next
  case (Cons f fs)
  from Cons.prems have f: "\<forall>l r. f \<noteq> EOperator BETWEEN l r" by auto
  from Cons.prems have "\<forall>l r. EOperator BETWEEN l r \<notin> set fs" by auto
  from Cons.IH[OF this] have IH: "indexable_nodes (Suc i) fs = Inr (spec_nodes (Suc i) fs)" .
  show ?case
    by (cases "spec_indexable f")
       (auto simp: isFilterIndexable_spec[OF f] IH bindE_def)
qed

lemma associate_loop_spec:
  "associate_loop ns ps found hasIn =
     (found @ spec_assigned ns ps hasIn,
      hasIn \<or> list_ex (\<lambda>n. operator n = IN) (spec_assigned ns ps hasIn))"
proof (induction ps arbitrary: found hasIn)
  case Nil
  then show ?case by simp
next
  case (Cons p ps)
  show ?case
  proof (cases "find (\<lambda>n. path n = p) ns")
    case None
    then show ?thesis by (simp add: getByPath_def)
  next
    case (Some n)
    then show ?thesis
      by (simp add: getByPath_def Let_def Cons.IH)
  qed
qed

lemma spec_assigned_subset: "set (spec_assigned ns ps b) \<subseteq> set ns"
proof (induction ps arbitrary: b)
  case Nil
  then show ?case by simp
next
  case (Cons p ps)
  show ?case
  proof (cases "find (\<lambda>n. path n = p) ns")
    case None
    then show ?thesis by simp
  next
    case (Some n)
    then have "n \<in> set ns" by (auto simp: find_Some_iff)
    with Some Cons.IH show ?thesis by auto
  qed
qed

lemma spec_assigned_length: "length (spec_assigned ns ps b) \<le> length ps"
proof (induction ps arbitrary: b)
  case Nil
  then show ?case by simp
next
  case (Cons p ps)
  show ?case
  proof (cases "find (\<lambda>n. path n = p) ns")
    case None
    then show ?thesis by simp
  next
    case (Some n)
    with Cons.IH[of b] Cons.IH[of True] show ?thesis by auto
  qed
qed

lemma walkExpr_product_lists: "l \<noteq> [] \<Longrightarrow> walkExpr l = Inr (product_lists l)"
proof (induction l)
  case Nil
  then show ?case by simp
next
  case (Cons curLine l)
  show ?case
  proof (cases l)
    case Nil
    have "concat (map (\<lambda>x. [[x]]) curLine) = map (\<lambda>e. [e]) curLine"
      by (induction curLine) simp_all
    with Nil show ?thesis by simp
  next
    case (Cons v va)
    with Cons.IH have r: "walkExpr (v # va) = Inr (product_lists (v # va))" by simp
    have "collectE (map (\<lambda>e. map_sum id (map ((#) e)) (walkExpr (v # va))) curLine)
            = Inr (map (\<lambda>e. map ((#) e) (product_lists (v # va))) curLine)"
      unfolding r by (simp add: collectE_Inr_map)
    then show ?thesis unfolding Cons by simp
  qed
qed

lemma filter_rows_spec:
  "\<forall>n \<in> set a. node_ok n \<Longrightarrow> collectE (map filter_row a) = Inr (map spec_row a)"
proof (induction a)
  case Nil
  then show ?case by simp
next
  case (Cons n a)
  then have "node_ok n" by simp
  then have "filter_row n = Inr (spec_row n)"
    by (cases "operand n") (auto simp: filter_row_def spec_row_def node_ok_def)
  with Cons show ?case by simp
qed

lemma collectE_Inr_cong:
  "\<forall>x \<in> set xs. g x = Inr (f x) \<Longrightarrow> collectE (map g xs) = Inr (map f xs)"
  by (induction xs) auto

lemma buildRangesFromFilterNodes_spec:
  assumes "a \<noteq> []" and "\<forall>n \<in> set a. node_ok n" and "length a \<le> length paths"
  shows "buildRangesFromFilterNodes paths a =
           Inr (map (\<lambda>row. \<lparr>r_Paths = take (length row) paths, r_Min = row, r_Max = [],
                              Exclusive = False, Exact = True\<rparr>)
                  (product_lists (map spec_row a)))"
proof -
  have l: "collectE (map filter_row a) = Inr (map spec_row a)"
    using assms(2) by (rule filter_rows_spec)
  have w: "walkExpr (map spec_row a) = Inr (product_lists (map spec_row a))"
    using assms(1) by (simp add: walkExpr_product_lists)
  have len: "\<forall>row \<in> set (product_lists (map spec_row a)). length row = length a"
    using in_set_product_lists_length by fastforce
  have "collectE (map (\<lambda>row. if length row > length paths then Inl SliceOutOfRange
                 else buildRangeFromOperator EQ (take (length row) paths) row)
            (product_lists (map spec_row a)))
        = Inr (map (\<lambda>row. \<lparr>r_Paths = take (length row) paths, r_Min = row, r_Max = [],
                              Exclusive = False, Exact = True\<rparr>)
                  (product_lists (map spec_row a)))"
    using len assms(3) by (intro collectE_Inr_cong) (simp add: buildRangeFromOperator_def)
  with l w show ?thesis by (simp add: buildRangesFromFilterNodes_def bindE_def)
qed

lemma buildRangeFromFilterNodes_spec:
  assumes "a \<noteq> []" and "node_ok (last a)" and "operator (last a) \<noteq> IN"
  shows "buildRangeFromFilterNodes a = Inr (spec_range a)"
proof -
  have l: "last (map operand a) = operand (last a)"
    using assms(1) by (simp add: last_map)
  show ?thesis
  proof (cases "operator (last a) = BETWEEN")
    case True
    with assms(2) obtain lo hi where "operand (last a) = LiteralExprList [lo, hi]"
      by (cases "operand (last a)")
         (auto simp: node_ok_def length_Suc_conv numeral_2_eq_2)
    with True l assms(1) show ?thesis
      by (simp add: buildRangeFromFilterNodes_def buildRangeFromOperator_def spec_range_def
            Let_def)
  next
    case False
    with assms(1,3) show ?thesis
      by (simp add: buildRangeFromFilterNodes_def buildRangeFromOperator_def spec_range_def
            Let_def)
  qed
qed

lemma associateIndexWithNodes_spec:
  assumes "\<forall>n \<in> set ns. node_ok n"
  shows "associateIndexWithNodes rcost treeName isIdx isUniq paths ns
           = Inr (spec_candidate rcost treeName isIdx isUniq paths ns)"
proof -
  define a where "a = spec_assigned ns paths False"
  have loop: "associate_loop ns paths [] False = (a, list_ex (\<lambda>n. operator n = IN) a)"
    by (simp add: associate_loop_spec a_def)
  have ok: "\<forall>n \<in> set a. node_ok n"
    using assms spec_assigned_subset[of ns paths False] by (auto simp: a_def)
  have len: "length a \<le> length paths" by (simp add: a_def spec_assigned_length)
  show ?thesis
  proof (cases "a = []")
    case True
    with loop show ?thesis
      by (simp add: associateIndexWithNodes_def spec_candidate_def a_def[symmetric])
  next
    case ne: False
    show ?thesis
    proof (cases "list_ex (\<lambda>n. operator n = IN) a")
      case True
      with loop ne buildRangesFromFilterNodes_spec[OF ne ok len] show ?thesis
        by (simp add: associateIndexWithNodes_def spec_candidate_def a_def[symmetric]
              spec_ranges_def bindE_def Let_def)
    next
      case False
      with ne have "operator (last a) \<noteq> IN" by (auto simp: list_ex_iff)
      moreover have "node_ok (last a)" using ok ne by simp
      ultimately have "buildRangeFromFilterNodes a = Inr (spec_range a)"
        using ne by (intro buildRangeFromFilterNodes_spec)
      with loop ne False show ?thesis
        by (simp add: associateIndexWithNodes_def spec_candidate_def a_def[symmetric]
              spec_ranges_def bindE_def Let_def)
    qed
  qed
qed

subsection \<open>The cost\<close>

lemma Cost_word_of_int: "Cost c = word_of_int (spec_cost c)"
  by (simp add: Cost_def spec_cost_def Let_def)

lemma sint_Cost: "in_int64 (spec_cost c) \<Longrightarrow> sint (Cost c) = spec_cost c"
  unfolding Cost_word_of_int in_int64_def
  by (simp add: sint_sbintrunc' signed_take_bit_int_eq_self)

lemma at_least_as_good_spec:
  "in_int64 (spec_cost a) \<Longrightarrow> in_int64 (spec_cost b) \<Longrightarrow>
     at_least_as_good a b = spec_at_least_as_good a b"
  by (simp add: at_least_as_good_def spec_at_least_as_good_def sint_Cost)

lemma spec_assigned_Nil: "spec_assigned [] ps b = []"
  by (cases ps) simp_all

lemma spec_candidates_Nil: "spec_candidates rcost c t tb [] = {}"
  by (simp add: spec_candidates_def spec_candidate_def spec_assigned_Nil)

subsection \<open>The selection\<close>

lemma selectIndex_optimal:
  assumes wf: "wf_indexes c" and tne: "t \<noteq> []" and tb: "GetTableInfo c t = Inr tb"
    and wfe: "\<forall>l r. EOperator BETWEEN l r \<notin> set fs"
  shows "\<exists>res. selectIndex rcost c t fs = Inr res
           \<and> (\<forall>cd \<in> spec_candidates rcost c t tb fs.
                 \<exists>sel. res = Some sel \<and> at_least_as_good sel cd)
           \<and> (\<forall>sel. res = Some sel \<longrightarrow> sel \<in> spec_candidates rcost c t tb fs)"
proof -
  define ns where "ns = spec_nodes 0 fs"
  have ns: "indexable_nodes 0 fs = Inr ns"
    using indexable_nodes_spec[OF wfe, of 0] by (simp add: ns_def)
  have ok: "\<forall>n \<in> set ns. node_ok n" using indexable_nodes_ok[OF ns] by blast
  note assoc = associateIndexWithNodes_spec[OF ok]
  define selected where "selected = (case GetPrimaryKey tb of
                    None \<Rightarrow> None
                  | Some pk \<Rightarrow> spec_candidate rcost (TableName tb) False False (tc_Paths pk) ns)"
  have sel0: "(case GetPrimaryKey tb of
                    None \<Rightarrow> Inr None
                  | Some pk \<Rightarrow>
                      associateIndexWithNodes rcost (TableName tb) False False (tc_Paths pk) ns)
              = Inr selected"
    by (cases "GetPrimaryKey tb") (simp_all add: selected_def assoc)
  define cost where "cost = (case selected of None \<Rightarrow> 0 | Some sel \<Rightarrow> Cost sel)"
  have names: "\<forall>name \<in> set (ListIndexes c t). \<exists>idx. GetIndexInfo c name = Inr idx"
    using wf_indexes_lookup[OF wf] ListIndexes_set[OF tne] by fastforce
  obtain res where res: "select_loop rcost c ns (ListIndexes c t) selected cost = Inr res"
    using select_loop_total[OF ok names] by blast
  have run: "selectIndex rcost c t fs = Inr res"
    using ns tb sel0 res by (simp add: selectIndex_def bindE_def cost_def)
  have c0: "\<And>s. selected = Some s \<Longrightarrow> cost = Cost s" by (simp add: cost_def)
  note best = select_loop_best[OF res c0]
  have a: "\<exists>sel. res = Some sel \<and> at_least_as_good sel cd"
    if "cd \<in> spec_candidates rcost c t tb fs" for cd
  proof -
    from that consider
      (pk) pk where "GetPrimaryKey tb = Some pk"
        "spec_candidate rcost (TableName tb) False False (tc_Paths pk) ns = Some cd"
      | (idx) idx where "idx \<in> set (GetTableIndexes c t)"
        "spec_candidate rcost (IndexName idx) True (Unique idx) (Paths idx) ns = Some cd"
      by (auto simp: spec_candidates_def ns_def)
    then show ?thesis
    proof cases
      case pk
      then have "selected = Some cd" by (simp add: selected_def)
      with best show ?thesis by blast
    next
      case idx
      have "IndexName idx \<in> set (ListIndexes c t)"
        using idx(1) ListIndexes_set[OF tne] by blast
      moreover have "GetIndexInfo c (IndexName idx) = Inr idx"
        using wf_indexes_lookup[OF wf idx(1)] .
      moreover have "associateIndexWithNodes rcost (IndexName idx) True (Unique idx) (Paths idx) ns
                       = Inr (Some cd)"
        using idx(2) by (simp add: assoc)
      ultimately show ?thesis using best by blast
    qed
  qed
  have b: "sel \<in> spec_candidates rcost c t tb fs" if "res = Some sel" for sel
  proof -
    from best that consider
      (pk) "selected = Some sel"
      | (idx) name idx where "name \<in> set (ListIndexes c t)" "GetIndexInfo c name = Inr idx"
          "associateIndexWithNodes rcost (IndexName idx) True (Unique idx) (Paths idx) ns = Inr (Some sel)"
      by blast
    then show ?thesis
    proof cases
      case pk
      then show ?thesis
        by (cases "GetPrimaryKey tb") (simp_all add: selected_def spec_candidates_def ns_def)
    next
      case idx
      from idx(1) obtain idx' where i': "idx' \<in> set (GetTableIndexes c t)" "name = IndexName idx'"
        using ListIndexes_set[OF tne] by blast
      with wf_indexes_lookup[OF wf i'(1)] idx(2) have "idx = idx'" by simp
      moreover from idx(3)
      have "spec_candidate rcost (IndexName idx) True (Unique idx) (Paths idx) ns = Some sel"
        by (simp add: assoc)
      ultimately show ?thesis using i'(1) unfolding spec_candidates_def ns_def by blast
    qed
  qed
  from run a b show ?thesis by blast
qed

text \<open>
  C1. For a stream whose head is a table scan of an existing table, over a cache whose
  index map is well formed, and with filters none of which is a binary operator that
  carries the token \<open>BETWEEN\<close> without being a \<open>BetweenOperator\<close> (on which
  \<open>operatorCanUseIndex\<close> panics): \<open>SelectIndex\<close> returns; what it selects is one of
  the candidates of the specification (that of the primary key, those of the declared
  indexes of the table, each with the filters section 4.7 assigns to it); the selected
  candidate assigns at least as many filters as every candidate and, among those
  assigning as many, costs no more; nothing is selected only when there is no
  candidate. The cost the code compares is the cost of the specification (ranges cost,
  plus 20 for an index, minus 10 when unique, minus the number of assigned filters)
  reduced to a signed 64-bit integer; when the costs of the candidates fit into 64
  bits, the selection is the best one for the integer cost itself.
\<close>

theorem SelectIndex_best:
  assumes wf: "wf_indexes c"
    and stream: "Stream sctx = TableScan t rs # rest"
    and tne: "t \<noteq> []"
    and tb: "GetTableInfo c t = Inr tb"
    and wfe: "\<forall>l r. EOperator BETWEEN l r \<notin> set (Filters sctx)"
  shows "\<exists>res. SelectIndex rcost c sctx = Inr res
           \<and> (\<forall>sel. res = Some sel \<longrightarrow> sel \<in> spec_candidates rcost c t tb (Filters sctx))
           \<and> (\<forall>cd \<in> spec_candidates rcost c t tb (Filters sctx).
                 \<exists>sel. res = Some sel \<and> at_least_as_good sel cd)
           \<and> (\<forall>cd. Cost cd = word_of_int (spec_cost cd)
                    \<and> (in_int64 (spec_cost cd) \<longrightarrow> sint (Cost cd) = spec_cost cd))
           \<and> ((\<forall>cd \<in> spec_candidates rcost c t tb (Filters sctx). in_int64 (spec_cost cd))
                \<longrightarrow> (\<forall>cd \<in> spec_candidates rcost c t tb (Filters sctx).
                       \<exists>sel. res = Some sel \<and> spec_at_least_as_good sel cd))"
proof -
  have "\<exists>res. SelectIndex rcost c sctx = Inr res
           \<and> (\<forall>cd \<in> spec_candidates rcost c t tb (Filters sctx).
                 \<exists>sel. res = Some sel \<and> at_least_as_good sel cd)
           \<and> (\<forall>sel. res = Some sel \<longrightarrow> sel \<in> spec_candidates rcost c t tb (Filters sctx))"
  proof (cases "Filters sctx = []")
    case True
    have "SelectIndex rcost c sctx = Inr None"
      using stream tb True by (simp add: SelectIndex_def)
    then show ?thesis using True by (simp add: spec_candidates_Nil)
  next
    case False
    then have "SelectIndex rcost c sctx = selectIndex rcost c t (Filters sctx)"
      using stream tb by (simp add: SelectIndex_def)
    with selectIndex_optimal[OF wf tne tb wfe, of rcost] show ?thesis by simp
  qed
  then obtain res where run: "SelectIndex rcost c sctx = Inr res"
    and best: "\<forall>cd \<in> spec_candidates rcost c t tb (Filters sctx).
                 \<exists>sel. res = Some sel \<and> at_least_as_good sel cd"
    and mem: "\<forall>sel. res = Some sel \<longrightarrow> sel \<in> spec_candidates rcost c t tb (Filters sctx)"
    by (elim exE conjE)
  have cost: "\<forall>cd. Cost cd = word_of_int (spec_cost cd)
                    \<and> (in_int64 (spec_cost cd) \<longrightarrow> sint (Cost cd) = spec_cost cd)"
    using Cost_word_of_int sint_Cost by blast
  have int: "\<forall>cd \<in> spec_candidates rcost c t tb (Filters sctx).
               \<exists>sel. res = Some sel \<and> spec_at_least_as_good sel cd"
    if fit: "\<forall>cd \<in> spec_candidates rcost c t tb (Filters sctx). in_int64 (spec_cost cd)"
  proof
    fix cd
    assume cd: "cd \<in> spec_candidates rcost c t tb (Filters sctx)"
    with best obtain sel where sel: "res = Some sel" "at_least_as_good sel cd" by blast
    with mem have "sel \<in> spec_candidates rcost c t tb (Filters sctx)" by blast
    with fit cd have "in_int64 (spec_cost sel)" "in_int64 (spec_cost cd)" by blast+
    with sel(2) have "spec_at_least_as_good sel cd" by (simp add: at_least_as_good_spec)
    with sel(1) show "\<exists>sel. res = Some sel \<and> spec_at_least_as_good sel cd" by blast
  qed
  from int have int':
    "(\<forall>cd \<in> spec_candidates rcost c t tb (Filters sctx). in_int64 (spec_cost cd))
       \<longrightarrow> (\<forall>cd \<in> spec_candidates rcost c t tb (Filters sctx).
              \<exists>sel. res = Some sel \<and> spec_at_least_as_good sel cd)"
    by (rule impI)
  from run mem best cost int' show ?thesis by (intro exI[of _ res] conjI)
qed

theorem SelectIndex_best_witness:
  "wf_indexes ex_cache \<and> GetTableInfo ex_cache ''foo'' = Inr ex_table
   \<and> spec_candidates ex_rcost ex_cache ''foo'' ex_table (Filters ex_sctx_tie)
       = {ex_pk_candidate, ex_idx_candidate}
   \<and> length (nodes ex_pk_candidate) = length (nodes ex_idx_candidate)
   \<and> spec_cost ex_pk_candidate = 0 \<and> spec_cost ex_idx_candidate = 20
   \<and> SelectIndex ex_rcost ex_cache ex_sctx_tie = Inr (Some ex_pk_candidate)"
proof -
  have h1: "wf_indexes ex_cache"
    by (simp add: wf_indexes_def ex_cache_def ex_index_def)
  have h2: "Stream ex_sctx_tie = TableScan ''foo'' [] # []" by (simp add: ex_sctx_tie_def)
  have h3: "''foo'' \<noteq> []" by simp
  have h4: "GetTableInfo ex_cache ''foo'' = Inr ex_table"
    by (simp add: GetTableInfo_def ex_cache_def)
  have h5: "\<forall>l r. EOperator BETWEEN l r \<notin> set (Filters ex_sctx_tie)"
    by (simp add: ex_sctx_tie_def)
  have pk: "GetPrimaryKey ex_table = Some \<lparr>PrimaryKey = True, tc_Paths = [[FieldName ''k'']]\<rparr>"
    by (simp add: GetPrimaryKey_def ex_table_def)
  have ix: "GetTableIndexes ex_cache ''foo'' = [ex_index]"
    by (simp add: GetTableIndexes_def ex_cache_def ex_index_def)
  have nds: "spec_nodes 0 (Filters ex_sctx_tie) =
               [\<lparr>node = 0, path = [FieldName ''a''], operator = EQ,
                  operand = ELiteralValue (NewIntegerValue 1)\<rparr>,
                \<lparr>node = 1, path = [FieldName ''k''], operator = EQ,
                  operand = ELiteralValue (NewIntegerValue 2)\<rparr>]"
    by (simp add: ex_sctx_tie_def spec_indexable_def)
  have cpk: "spec_candidate ex_rcost (TableName ex_table) False False [[FieldName ''k'']]
               (spec_nodes 0 (Filters ex_sctx_tie)) = Some ex_pk_candidate"
    unfolding nds
    by (simp add: spec_candidate_def spec_ranges_def spec_range_def ex_rcost_def
          ex_pk_candidate_def ex_table_def Let_def)
  have cix: "spec_candidate ex_rcost (IndexName ex_index) True (Unique ex_index) (Paths ex_index)
               (spec_nodes 0 (Filters ex_sctx_tie)) = Some ex_idx_candidate"
    unfolding nds
    by (simp add: spec_candidate_def spec_ranges_def spec_range_def ex_rcost_def
          ex_idx_candidate_def ex_index_def Let_def)
  have cands: "spec_candidates ex_rcost ex_cache ''foo'' ex_table (Filters ex_sctx_tie)
                 = {ex_pk_candidate, ex_idx_candidate}"
    unfolding spec_candidates_def pk ix using cpk cix by auto
  have len: "length (nodes ex_pk_candidate) = length (nodes ex_idx_candidate)"
    by (simp add: ex_pk_candidate_def ex_idx_candidate_def)
  have c1: "spec_cost ex_pk_candidate = 0" by (simp add: spec_cost_def ex_pk_candidate_def)
  have c2: "spec_cost ex_idx_candidate = 20" by (simp add: spec_cost_def ex_idx_candidate_def)
  have fit: "\<forall>cd \<in> spec_candidates ex_rcost ex_cache ''foo'' ex_table (Filters ex_sctx_tie).
               in_int64 (spec_cost cd)"
    unfolding cands using c1 c2 by (simp add: in_int64_def)
  from SelectIndex_best[OF h1 h2 h3 h4 h5, of ex_rcost]
  obtain res where run: "SelectIndex ex_rcost ex_cache ex_sctx_tie = Inr res"
    and mem: "\<forall>sel. res = Some sel \<longrightarrow>
                sel \<in> spec_candidates ex_rcost ex_cache ''foo'' ex_table (Filters ex_sctx_tie)"
    and int: "(\<forall>cd \<in> spec_candidates ex_rcost ex_cache ''foo'' ex_table (Filters ex_sctx_tie).
                 in_int64 (spec_cost cd))
                \<longrightarrow> (\<forall>cd \<in> spec_candidates ex_rcost ex_cache ''foo'' ex_table
                              (Filters ex_sctx_tie).
                       \<exists>sel. res = Some sel \<and> spec_at_least_as_good sel cd)"
    by (elim exE conjE)
  from int fit have best:
    "\<forall>cd \<in> {ex_pk_candidate, ex_idx_candidate}.
        \<exists>sel. res = Some sel \<and> spec_at_least_as_good sel cd"
    unfolding cands by (rule mp)
  then obtain sel where sel: "res = Some sel" "spec_at_least_as_good sel ex_pk_candidate"
    by blast
  from mem sel(1) have "sel = ex_pk_candidate \<or> sel = ex_idx_candidate"
    unfolding cands by blast
  moreover have "\<not> spec_at_least_as_good ex_idx_candidate ex_pk_candidate"
    using len c1 c2 by (simp add: spec_at_least_as_good_def)
  ultimately have "sel = ex_pk_candidate" using sel(2) by blast
  with run sel(1) have r: "SelectIndex ex_rcost ex_cache ex_sctx_tie = Inr (Some ex_pk_candidate)"
    by simp
  from h1 h4 cands len c1 c2 r show ?thesis by (intro conjI)
qed

lemma select_loop_err:
  assumes "\<forall>n \<in> set ns. node_ok n"
  shows "select_loop rcost c ns names selected cost = Inl x \<Longrightarrow> \<exists>e. x = CatalogError e"
proof (induction names arbitrary: selected cost)
  case Nil
  then show ?case by simp
next
  case (Cons name names)
  show ?case
  proof (cases "GetIndexInfo c name")
    case (Inl e)
    with Cons.prems show ?thesis by auto
  next
    case (Inr idx)
    obtain cand where cand: "associateIndexWithNodes rcost (IndexName idx) True (Unique idx)
                   (Paths idx) ns = Inr cand"
      using associateIndexWithNodes_total[OF assms] by blast
    from Cons.prems Inr cand Cons.IH show ?thesis
      by (auto simp: bindE_def split: option.splits if_splits)
  qed
qed

lemma selectIndex_err:
  "selectIndex rcost c t fs = Inl x \<Longrightarrow> x = TypeAssertionFailed \<or> (\<exists>e. x = CatalogError e)"
proof (cases "indexable_nodes 0 fs")
  case (Inl e)
  assume "selectIndex rcost c t fs = Inl x"
  with Inl have "x = e" by (simp add: selectIndex_def bindE_def)
  with indexable_nodes_err[OF Inl] show ?thesis by simp
next
  case (Inr ns)
  assume a: "selectIndex rcost c t fs = Inl x"
  have ok: "\<forall>n \<in> set ns. node_ok n" using indexable_nodes_ok[OF Inr] by blast
  show ?thesis
  proof (cases "GetTableInfo c t")
    case (Inl e)
    with a Inr show ?thesis by (auto simp: selectIndex_def bindE_def)
  next
    case tb: (Inr tb)
    have "\<exists>selected. (case GetPrimaryKey tb of
                    None \<Rightarrow> Inr None
                  | Some pk \<Rightarrow>
                      associateIndexWithNodes rcost (TableName tb) False False (tc_Paths pk) ns)
            = Inr selected"
    proof (cases "GetPrimaryKey tb")
      case None
      then show ?thesis by simp
    next
      case (Some pk)
      with associateIndexWithNodes_total[OF ok, of rcost "TableName tb" False False "tc_Paths pk"]
      show ?thesis by simp
    qed
    then obtain selected where sel0: "(case GetPrimaryKey tb of
                    None \<Rightarrow> Inr None
                  | Some pk \<Rightarrow>
                      associateIndexWithNodes rcost (TableName tb) False False (tc_Paths pk) ns)
            = Inr selected" by blast
    from a Inr tb sel0 have "select_loop rcost c ns (ListIndexes c t) selected
          (case selected of None \<Rightarrow> 0 | Some sel \<Rightarrow> Cost sel) = Inl x"
      by (simp add: selectIndex_def bindE_def)
    from select_loop_err[OF ok this] show ?thesis by blast
  qed
qed

text \<open>
  C10. \<open>walkExpr\<close> reads \<open>l[0]\<close> before it tests \<open>len(l) == 0\<close>, so on the empty list it
  panics with an index out of range, and on every other list it returns. Under
  \<open>SelectIndex\<close> the empty list does not reach it: \<open>buildRangesFromFilterNodes\<close> hands
  it one line per filter, it is called only when \<open>hasIn\<close> is set, in which case a filter
  has been associated, and \<open>SelectIndex\<close> never ends in an index out of range.
\<close>

theorem walkExpr_empty_unreachable:
  "walkExpr [] = Inl IndexOutOfRange
   \<and> (\<forall>l. l \<noteq> [] \<longrightarrow> (\<exists>rows. walkExpr l = Inr rows))
   \<and> (\<forall>paths filters l. filters \<noteq> [] \<longrightarrow> collectE (map filter_row filters) = Inr l \<longrightarrow> l \<noteq> [])
   \<and> (\<forall>ns paths found. associate_loop ns paths [] False = (found, True) \<longrightarrow> found \<noteq> [])
   \<and> SelectIndex rcost c sctx \<noteq> Inl IndexOutOfRange"
proof -
  have 1: "walkExpr [] = Inl IndexOutOfRange" by simp
  have 2: "\<forall>l. l \<noteq> [] \<longrightarrow> (\<exists>rows. walkExpr l = Inr rows)" using walkExpr_rows by blast
  have 3: "\<forall>paths filters l. filters \<noteq> [] \<longrightarrow> collectE (map filter_row filters) = Inr l \<longrightarrow> l \<noteq> []"
    using collectE_length by fastforce
  have 4: "\<forall>ns paths found. associate_loop ns paths [] False = (found, True) \<longrightarrow> found \<noteq> []"
  proof (intro allI impI)
    fix ns paths found
    assume "associate_loop ns paths [] False = (found, True)"
    from associate_loop_inv[OF this] show "found \<noteq> []" by simp
  qed
  have 5: "SelectIndex rcost c sctx \<noteq> Inl IndexOutOfRange"
  proof
    assume a: "SelectIndex rcost c sctx = Inl IndexOutOfRange"
    then obtain t where "selectIndex rcost c t (Filters sctx) = Inl IndexOutOfRange"
      by (auto simp: SelectIndex_def split: list.splits Operator.splits sum.splits if_splits)
    from selectIndex_err[OF this] show False by auto
  qed
  from 1 2 3 4 5 show ?thesis by blast
qed

theorem walkExpr_empty_unreachable_witness:
  "[[LiteralExprList []]] \<noteq> [] \<and> (\<exists>rows. walkExpr [[LiteralExprList []]] = Inr rows)
   \<and> SelectIndex (\<lambda>_. 0) ex_cache ex_sctx \<noteq> Inl IndexOutOfRange"
proof -
  note t = walkExpr_empty_unreachable[of "\<lambda>_. 0" ex_cache ex_sctx]
  have a: "[[LiteralExprList []]] \<noteq> []" by simp
  from t have "\<forall>l. l \<noteq> [] \<longrightarrow> (\<exists>rows. walkExpr l = Inr rows)" by (elim conjE)
  from this[rule_format, OF a] have b: "\<exists>rows. walkExpr [[LiteralExprList []]] = Inr rows" .
  from t have c: "SelectIndex (\<lambda>_. 0) ex_cache ex_sctx \<noteq> Inl IndexOutOfRange" by (elim conjE)
  from a b c show ?thesis by (intro conjI)
qed

section \<open>Rollback hooks: properties\<close>

lemma same_maps_refl: "same_maps c c"
  by (simp add: same_maps_def)

lemma same_maps_trans: "same_maps a b \<Longrightarrow> same_maps b c \<Longrightarrow> same_maps a c"
  by (simp add: same_maps_def)

lemma run_hook_cong: "same_maps c c' \<Longrightarrow> same_maps (run_hook h c) (run_hook h c')"
proof (cases h)
  case (HookDelete tp name)
  assume "same_maps c c'"
  then show ?thesis using HookDelete
    by (cases tp) (simp_all add: same_maps_def delete_conv')
next
  case (HookSet name r)
  assume "same_maps c c'"
  then show ?thesis using HookSet
    by (cases r) (simp_all add: same_maps_def update_conv')
qed

lemma generateUnusedName_loop_free:
  "\<not> objectExists c (generateUnusedName_loop c baseName name i)"
proof (induction c baseName name i rule: generateUnusedName_loop.induct)
  case (1 c baseName name i)
  then show ?case by (subst generateUnusedName_loop.simps) simp
qed

lemma generateUnusedName_free: "\<not> objectExists c (generateUnusedName c baseName)"
  by (simp add: generateUnusedName_def generateUnusedName_loop_free)

lemma rel_Type_SetName [simp]: "rel_Type (SetName n r) = rel_Type r"
  by (cases r) simp_all

lemma undo_set:
  assumes "\<not> objectExists c name"
  shows "same_maps (cache_del (rel_Type r) name (cache_set name r c)) c"
proof -
  have "map_of (tables c) name = None" "map_of (indexes c) name = None"
       "map_of (sequences c) name = None"
    using assms by (auto simp: objectExists_def)
  then show ?thesis
    by (cases r) (auto simp: same_maps_def delete_conv' update_conv' fun_upd_idem_iff)
qed

lemma cache_lookup_type: "cache_lookup tp name c = Some r \<Longrightarrow> rel_Type r = tp"
  by (cases tp) auto

lemma undo_replace:
  assumes "cache_lookup (rel_Type r) name c = Some old"
  shows "same_maps (cache_set name old (cache_set name r c)) c"
proof -
  have t: "rel_Type old = rel_Type r" using assms by (rule cache_lookup_type)
  show ?thesis
    using assms t
    by (cases r; cases old)
       (auto simp: same_maps_def update_conv' fun_upd_idem_iff)
qed

lemma undo_delete:
  assumes "cache_lookup tp name c = Some r"
  shows "same_maps (cache_set name r (cache_del tp name c)) c"
  using assms
  by (cases tp; cases r) (auto simp: same_maps_def update_conv' delete_conv' fun_upd_idem_iff)

lemma apply_op_hook:
  assumes "apply_op gbn st op = Inr st'"
  shows "\<exists>h. OnRollbackHooks st' = OnRollbackHooks st @ [h]
             \<and> same_maps (run_hook h (Cache st')) (Cache st)"
proof (cases op)
  case (OpAdd r)
  show ?thesis
  proof (cases "rel_Name r \<noteq> []")
    case True
    with assms OpAdd have ne: "\<not> objectExists (Cache st) (rel_Name r)"
      and st': "st' = snd (add_entry st (rel_Name r) r)"
      by (auto simp: apply_op_def Cache_Add_def Let_def split: if_splits)
    from st' undo_set[OF ne] show ?thesis by (simp add: add_entry_def)
  next
    case False
    define name where "name = generateUnusedName (Cache st) (gbn r)"
    from assms OpAdd False have st': "st' = snd (add_entry st name (SetName name r))"
      by (auto simp: apply_op_def Cache_Add_def Let_def name_def)
    have ne: "\<not> objectExists (Cache st) name"
      by (simp add: name_def generateUnusedName_free)
    from st' undo_set[OF ne, of "SetName name r"] show ?thesis by (simp add: add_entry_def)
  qed
next
  case (OpReplace r)
  with assms obtain old where old: "cache_lookup (rel_Type r) (rel_Name r) (Cache st) = Some old"
    and st': "st' = st\<lparr>Cache := cache_set (rel_Name r) r (Cache st),
                 OnRollbackHooks := OnRollbackHooks st @ [HookSet (rel_Name r) old]\<rparr>"
    by (auto simp: apply_op_def Cache_Replace_def split: option.splits)
  from st' undo_replace[OF old] show ?thesis by simp
next
  case (OpDelete tp name)
  with assms obtain r where r: "cache_lookup tp name (Cache st) = Some r"
    and st': "st' = st\<lparr>Cache := cache_del tp name (Cache st),
                  OnRollbackHooks := OnRollbackHooks st @ [HookSet name r]\<rparr>"
    by (auto simp: apply_op_def Cache_Delete_def split: option.splits)
  from st' undo_delete[OF r] show ?thesis by simp
qed

lemma run_hooks_lifo_cong:
  "same_maps c c' \<Longrightarrow> same_maps (run_hooks_lifo hs c) (run_hooks_lifo hs c')"
proof (induction hs arbitrary: c c' rule: rev_induct)
  case Nil
  then show ?case by (simp add: run_hooks_lifo_def)
next
  case (snoc h hs)
  have "same_maps (run_hook h c) (run_hook h c')" using snoc.prems by (rule run_hook_cong)
  from snoc.IH[OF this] show ?case by (simp add: run_hooks_lifo_def)
qed

lemma run_hooks_lifo_Cons: "run_hooks_lifo (h # hs) c = run_hook h (run_hooks_lifo hs c)"
  by (simp add: run_hooks_lifo_def)

lemma apply_ops_rollback:
  "apply_ops gbn st ops = (st', n) \<Longrightarrow>
     \<exists>hs. OnRollbackHooks st' = OnRollbackHooks st @ hs \<and> length hs = n
          \<and> same_maps (run_hooks_lifo hs (Cache st')) (Cache st)"
proof (induction ops arbitrary: st st' n)
  case Nil
  then show ?case by (simp add: run_hooks_lifo_def same_maps_refl)
next
  case (Cons op ops)
  show ?case
  proof (cases "apply_op gbn st op")
    case (Inl e)
    with Cons.prems have "apply_ops gbn st ops = (st', n)" by simp
    from Cons.IH[OF this] show ?thesis .
  next
    case (Inr st1)
    with Cons.prems obtain m where rest: "apply_ops gbn st1 ops = (st', m)" and n: "n = m + 1"
      by (auto split: prod.splits)
    from apply_op_hook[OF Inr] obtain h where h: "OnRollbackHooks st1 = OnRollbackHooks st @ [h]"
      and u: "same_maps (run_hook h (Cache st1)) (Cache st)" by blast
    from Cons.IH[OF rest] obtain hs where hs: "OnRollbackHooks st' = OnRollbackHooks st1 @ hs"
      "length hs = m" and r: "same_maps (run_hooks_lifo hs (Cache st')) (Cache st1)" by blast
    have "same_maps (run_hook h (run_hooks_lifo hs (Cache st'))) (run_hook h (Cache st1))"
      using r by (rule run_hook_cong)
    then have "same_maps (run_hooks_lifo (h # hs) (Cache st')) (Cache st)"
      using u same_maps_trans unfolding run_hooks_lifo_Cons by blast
    moreover have "OnRollbackHooks st' = OnRollbackHooks st @ (h # hs)" using h hs by simp
    moreover have "length (h # hs) = n" using hs n by simp
    ultimately show ?thesis by blast
  qed
qed

section \<open>UPDATE: properties\<close>

lemma foldl_Pipe: "foldl (\<lambda>s n. Pipe s (f n)) s ns = s @ map f ns"
  by (induction ns arbitrary: s) (simp_all add: Pipe_def)

lemma foldl_snoc: "foldl (\<lambda>s n. s @ [f n]) s ns = s @ map f ns"
  by (induction ns arbitrary: s) simp_all

lemma set_pairs_loop_eq:
  "set_pairs_loop (Some pk) pairs m s =
     (m \<or> pk_modified pk pairs, s @ map (\<lambda>(p, e). PathsSet p e) pairs)"
proof (induction pairs arbitrary: m s)
  case Nil
  then show ?case by (simp add: pk_modified_def)
next
  case (Cons pe pairs)
  obtain p e where pe: "pe = (p, e)" by (cases pe)
  show ?case
    unfolding pe
    by (auto simp: Cons.IH pk_modified_def Pipe_def list_ex_iff)
qed

text \<open>
  C7, amended. For an UPDATE with SET pairs on a table with a primary key, \<open>Prepare\<close>
  returns the stream: table scan, the filter if there is a WHERE clause, one
  \<open>PathsSet\<close> per pair, \<open>TableValidate\<close>, one \<open>IndexDelete\<close> per index of the table,
  then \<open>TableDelete\<close> followed by \<open>TableInsert\<close> if some SET target path is a path of
  the primary key and \<open>TableReplace\<close> otherwise, then one \<open>IndexInsert\<close> per index of
  the table. So the table operators are the last ones only when the table has no
  index. \<open>TableReplace\<close> writes the document under the key it finds in the environment
  and touches no other key.
\<close>

theorem Prepare_set_pipeline:
  assumes "GetTableInfo c (upd_TableName stmt) = Inr ti"
    and "GetPrimaryKey ti = Some pk"
    and "SetPairs stmt = Some pairs"
  shows "Prepare c stmt =
           Inr (TableScan (upd_TableName stmt) []
                # (case WhereExpr stmt of None \<Rightarrow> [] | Some w \<Rightarrow> [DocsFilter w])
                @ map (\<lambda>(p, e). PathsSet p e) pairs
                @ [TableValidate (upd_TableName stmt)]
                @ map IndexDelete (ListIndexes c (upd_TableName stmt))
                @ (if pk_modified pk pairs
                   then [TableDelete (upd_TableName stmt), TableInsert (upd_TableName stmt)]
                   else [TableReplace (upd_TableName stmt)])
                @ map IndexInsert (ListIndexes c (upd_TableName stmt)))
         \<and> (\<forall>validate table out table'.
               TableReplace_it validate table out = Inr table' \<longrightarrow>
                 (\<exists>key. env_DocPKKey out = Some key \<and> table' key \<noteq> None
                        \<and> (\<forall>k. k \<noteq> key \<longrightarrow> table' k = table k)))"
proof -
  have 1: "Prepare c stmt =
           Inr (TableScan (upd_TableName stmt) []
                # (case WhereExpr stmt of None \<Rightarrow> [] | Some w \<Rightarrow> [DocsFilter w])
                @ map (\<lambda>(p, e). PathsSet p e) pairs
                @ [TableValidate (upd_TableName stmt)]
                @ map IndexDelete (ListIndexes c (upd_TableName stmt))
                @ (if pk_modified pk pairs
                   then [TableDelete (upd_TableName stmt), TableInsert (upd_TableName stmt)]
                   else [TableReplace (upd_TableName stmt)])
                @ map IndexInsert (ListIndexes c (upd_TableName stmt)))"
    using assms
    by (simp add: Prepare_def bindE_def Let_def set_pairs_loop_eq foldl_snoc Pipe_def
             split: option.splits)
  have 2: "\<exists>key. env_DocPKKey out = Some key \<and> table' key \<noteq> None
                        \<and> (\<forall>k. k \<noteq> key \<longrightarrow> table' k = table k)"
    if "TableReplace_it validate table out = Inr table'" for validate table out table'
    using that
    by (auto simp: TableReplace_it_def bindE_def split: option.splits sum.splits)
  from 1 2 show ?thesis by blast
qed

theorem Prepare_set_pipeline_witness:
  "GetTableInfo ex_cache (upd_TableName ex_update) = Inr ex_table
   \<and> Prepare ex_cache ex_update =
       Inr [TableScan ''foo'' [], PathsSet [FieldName ''k''] (ELiteralValue (NewIntegerValue 5)),
            TableValidate ''foo'', IndexDelete ''idx_foo_a'', TableDelete ''foo'',
            TableInsert ''foo'', IndexInsert ''idx_foo_a'']"
proof -
  have h1: "GetTableInfo ex_cache (upd_TableName ex_update) = Inr ex_table"
    by (simp add: GetTableInfo_def ex_cache_def ex_update_def)
  have h2: "GetPrimaryKey ex_table = Some \<lparr>PrimaryKey = True, tc_Paths = [[FieldName ''k'']]\<rparr>"
    by (simp add: GetPrimaryKey_def ex_table_def)
  have h3: "SetPairs ex_update =
              Some [([FieldName ''k''], ELiteralValue (NewIntegerValue 5))]"
    by (simp add: ex_update_def)
  have l: "ListIndexes ex_cache ''foo'' = [''idx_foo_a'']"
    by (simp add: ListIndexes_def GetTableIndexes_def ex_cache_def ex_index_def)
  from Prepare_set_pipeline[OF h1 h2 h3]
  have "Prepare ex_cache ex_update =
           Inr (TableScan (upd_TableName ex_update) []
                # (case WhereExpr ex_update of None \<Rightarrow> [] | Some w \<Rightarrow> [DocsFilter w])
                @ map (\<lambda>(p, e). PathsSet p e)
                    [([FieldName ''k''], ELiteralValue (NewIntegerValue 5))]
                @ [TableValidate (upd_TableName ex_update)]
                @ map IndexDelete (ListIndexes ex_cache (upd_TableName ex_update))
                @ (if pk_modified \<lparr>PrimaryKey = True, tc_Paths = [[FieldName ''k'']]\<rparr>
                        [([FieldName ''k''], ELiteralValue (NewIntegerValue 5))]
                   then [TableDelete (upd_TableName ex_update), TableInsert (upd_TableName ex_update)]
                   else [TableReplace (upd_TableName ex_update)])
                @ map IndexInsert (ListIndexes ex_cache (upd_TableName ex_update)))"
    by (elim conjE)
  then have "Prepare ex_cache ex_update =
       Inr [TableScan ''foo'' [], PathsSet [FieldName ''k''] (ELiteralValue (NewIntegerValue 5)),
            TableValidate ''foo'', IndexDelete ''idx_foo_a'', TableDelete ''foo'',
            TableInsert ''foo'', IndexInsert ''idx_foo_a'']"
    using l by (simp add: ex_update_def pk_modified_def)
  with h1 show ?thesis by (intro conjI)
qed

text \<open>
  C7, as the claim states it, fails on a table with an index: the primary-key path
  \<open>k\<close> is SET, and the stream does not end with \<open>TableDelete\<close>, \<open>TableInsert\<close> but
  with the \<open>IndexInsert\<close> of the index.
\<close>

theorem Prepare_ends_with_IndexInsert_counterexample:
  "Prepare ex_cache ex_update =
       Inr [TableScan ''foo'' [], PathsSet [FieldName ''k''] (ELiteralValue (NewIntegerValue 5)),
            TableValidate ''foo'', IndexDelete ''idx_foo_a'', TableDelete ''foo'',
            TableInsert ''foo'', IndexInsert ''idx_foo_a'']
   \<and> last [TableScan ''foo'' [], PathsSet [FieldName ''k''] (ELiteralValue (NewIntegerValue 5)),
            TableValidate ''foo'', IndexDelete ''idx_foo_a'', TableDelete ''foo'',
            TableInsert ''foo'', IndexInsert ''idx_foo_a''] \<noteq> TableInsert ''foo''"
  by (simp add: Prepare_def bindE_def Let_def Pipe_def GetTableInfo_def GetPrimaryKey_def
        ListIndexes_def GetTableIndexes_def ex_cache_def ex_update_def ex_table_def ex_index_def)

section \<open>Table scan: properties\<close>

text \<open>
  Whatever the ranges, the loop never hands the \<open>ErrStreamClosed\<close> of the callback to
  its caller; and over a single range it ends, with \<open>nil\<close>, in the state the callback
  left when it closed the stream.
\<close>

lemma Iterate_ranges_not_closed:
  "fst (Iterate_ranges hits reverse newEnv fn rngs s) \<noteq> Some ErrStreamClosed"
proof (induction rngs arbitrary: s)
  case Nil
  then show ?case by simp
next
  case (Cons rng rngs)
  obtain err s' where r: "IterateOnRange (hits rng reverse)
             (\<lambda>s key d. fn s (newEnv\<lparr>env_DocPKKey := Some key, env_Document := Some d\<rparr>)) s
           = (err, s')"
    by (cases "IterateOnRange (hits rng reverse)
             (\<lambda>s key d. fn s (newEnv\<lparr>env_DocPKKey := Some key, env_Document := Some d\<rparr>)) s")
  show ?case
  proof (cases "err = Some ErrStreamClosed \<or> err = None")
    case True
    with r Cons.IH[of s'] show ?thesis by (auto simp: Let_def)
  next
    case False
    with r show ?thesis by (auto simp: Let_def)
  qed
qed

lemma Iterate_single_range_closed:
  assumes "IterateOnRange (hits rng reverse)
             (\<lambda>s key d. fn s (newEnv\<lparr>env_DocPKKey := Some key, env_Document := Some d\<rparr>)) s
           = (Some ErrStreamClosed, s')"
  shows "Iterate_ranges hits reverse newEnv fn [rng] s = (None, s')"
  using assms by simp

text \<open>
  C8 fails on a scan of more than one range. \<open>Iterate\<close> turns the \<open>ErrStreamClosed\<close> of
  the callback into \<open>nil\<close> and goes on with the next range: here the consumer closes
  the stream at the row of the first range and is still handed the row of the second.
  \<open>Iterate\<close> returns \<open>nil\<close>.
\<close>

theorem Iterate_continues_after_close:
  "Iterate ex_cache (\<lambda>rs. Inr [0, 1]) ex_hits ex_scan ex_closing_consumer [] = (None, [[1], [2]])"
  by (simp add: Iterate_def GetTableInfo_def ex_cache_def ex_scan_def ex_hits_def
        ex_closing_consumer_def)

section \<open>Catalog: properties\<close>

text \<open>
  C9. For an index registered in the cache: when its owner carries constraint paths,
  \<open>DropIndex\<close> fails (and changes nothing, as a failure returns no state); when it
  carries none, the session is writable and the index has its catalog row, \<open>DropIndex\<close>
  succeeds, the row of the index is deleted, its namespace is truncated and its cache
  entry is gone. Whenever \<open>DropIndex\<close> succeeds, the owner carried no paths, the row is
  deleted and the namespace is empty.
\<close>

theorem DropIndex_owner:
  assumes "GetIndexInfo (Cache st) name = Inr info"
  shows "(owner_Paths (Owner info) \<noteq> [] \<longrightarrow>
            DropIndex st name = Inl (ErrIndexOwnedByConstraint (IndexName info)
                                       (idx_TableName info) (owner_Paths (Owner info))))
       \<and> (owner_Paths (Owner info) = [] \<longrightarrow> \<not> SessionReadOnly st \<longrightarrow>
            rows st (IndexName info) \<noteq> None \<longrightarrow>
            (\<exists>st'. DropIndex st name = Inr st'
                   \<and> rows st' = (rows st)(IndexName info := None)
                   \<and> store st' = (store st)(idx_StoreNamespace info := Map.empty)
                   \<and> map_of (indexes (Cache st')) name = None))
       \<and> (\<forall>st'. DropIndex st name = Inr st' \<longrightarrow>
            owner_Paths (Owner info) = []
            \<and> rows st' (IndexName info) = None
            \<and> store st' (idx_StoreNamespace info) = Map.empty)"
proof -
  from assms have look: "map_of (indexes (Cache st)) name = Some info"
    by (auto simp: GetIndexInfo_def split: option.splits)
  have del: "Cache_Delete st RelationIndexType name =
               Inr (RIndex info, st\<lparr>Cache := cache_del RelationIndexType name (Cache st),
                  OnRollbackHooks := OnRollbackHooks st @ [HookSet name (RIndex info)]\<rparr>)"
    using look by (simp add: Cache_Delete_def)
  have 1: "owner_Paths (Owner info) \<noteq> [] \<longrightarrow>
            DropIndex st name = Inl (ErrIndexOwnedByConstraint (IndexName info)
                                       (idx_TableName info) (owner_Paths (Owner info)))"
    using assms by (simp add: DropIndex_def bindE_def)
  have 2: "owner_Paths (Owner info) = [] \<longrightarrow> \<not> SessionReadOnly st \<longrightarrow>
            rows st (IndexName info) \<noteq> None \<longrightarrow>
            (\<exists>st'. DropIndex st name = Inr st'
                   \<and> rows st' = (rows st)(IndexName info := None)
                   \<and> store st' = (store st)(idx_StoreNamespace info := Map.empty)
                   \<and> map_of (indexes (Cache st')) name = None)"
    using assms del
    by (auto simp: DropIndex_def bindE_def dropIndex_def Truncate_def CatalogStore_Delete_def
                   delete_conv')
  have 3: "\<forall>st'. DropIndex st name = Inr st' \<longrightarrow>
            owner_Paths (Owner info) = []
            \<and> rows st' (IndexName info) = None
            \<and> store st' (idx_StoreNamespace info) = Map.empty"
    using assms del
    by (auto simp: DropIndex_def bindE_def dropIndex_def Truncate_def CatalogStore_Delete_def
             split: if_splits)
  from 1 2 3 show ?thesis by (intro conjI)
qed

theorem DropIndex_owner_witness:
  "GetIndexInfo (Cache ex_db) ''idx_foo_a'' = Inr ex_index
   \<and> (\<exists>st'. DropIndex ex_db ''idx_foo_a'' = Inr st'
            \<and> rows st' = (rows ex_db)(''idx_foo_a'' := None)
            \<and> store st' = (store ex_db)(102 := Map.empty)
            \<and> map_of (indexes (Cache st')) ''idx_foo_a'' = None)
   \<and> DropIndex (ex_db\<lparr>Cache := ex_cache\<lparr>indexes :=
          [(''idx_foo_a'', ex_index\<lparr>Owner := \<lparr>owner_TableName = ''foo'',
                                                owner_Paths = [[FieldName ''a'']]\<rparr>\<rparr>)]\<rparr>\<rparr>)
        ''idx_foo_a''
       = Inl (ErrIndexOwnedByConstraint ''idx_foo_a'' ''foo'' [[FieldName ''a'']])"
proof -
  have h: "GetIndexInfo (Cache ex_db) ''idx_foo_a'' = Inr ex_index"
    by (simp add: GetIndexInfo_def ex_db_def ex_cache_def)
  have a: "owner_Paths (Owner ex_index) = []" by (simp add: ex_index_def ex_no_owner_def)
  have b: "\<not> SessionReadOnly ex_db" by (simp add: ex_db_def)
  have c: "rows ex_db (IndexName ex_index) \<noteq> None" by (simp add: ex_db_def ex_index_def)
  from DropIndex_owner[OF h]
  have "owner_Paths (Owner ex_index) = [] \<longrightarrow> \<not> SessionReadOnly ex_db \<longrightarrow>
            rows ex_db (IndexName ex_index) \<noteq> None \<longrightarrow>
            (\<exists>st'. DropIndex ex_db ''idx_foo_a'' = Inr st'
                   \<and> rows st' = (rows ex_db)(IndexName ex_index := None)
                   \<and> store st' = (store ex_db)(idx_StoreNamespace ex_index := Map.empty)
                   \<and> map_of (indexes (Cache st')) ''idx_foo_a'' = None)"
    by (elim conjE)
  from this[rule_format, OF a b c]
  have 1: "\<exists>st'. DropIndex ex_db ''idx_foo_a'' = Inr st'
            \<and> rows st' = (rows ex_db)(''idx_foo_a'' := None)
            \<and> store st' = (store ex_db)(102 := Map.empty)
            \<and> map_of (indexes (Cache st')) ''idx_foo_a'' = None"
    by (simp add: ex_index_def)
  let ?st = "ex_db\<lparr>Cache := ex_cache\<lparr>indexes :=
          [(''idx_foo_a'', ex_index\<lparr>Owner := \<lparr>owner_TableName = ''foo'',
                                                owner_Paths = [[FieldName ''a'']]\<rparr>\<rparr>)]\<rparr>\<rparr>"
  let ?info = "ex_index\<lparr>Owner := \<lparr>owner_TableName = ''foo'', owner_Paths = [[FieldName ''a'']]\<rparr>\<rparr>"
  have h': "GetIndexInfo (Cache ?st) ''idx_foo_a'' = Inr ?info"
    by (simp add: GetIndexInfo_def)
  from DropIndex_owner[OF h']
  have "owner_Paths (Owner ?info) \<noteq> [] \<longrightarrow>
            DropIndex ?st ''idx_foo_a'' = Inl (ErrIndexOwnedByConstraint (IndexName ?info)
                                       (idx_TableName ?info) (owner_Paths (Owner ?info)))"
    by (elim conjE)
  then have 2: "DropIndex ?st ''idx_foo_a''
       = Inl (ErrIndexOwnedByConstraint ''idx_foo_a'' ''foo'' [[FieldName ''a'']])"
    by (simp add: ex_index_def)
  from h 1 2 show ?thesis by (intro conjI)
qed

text \<open>
  C9, as the claim states it, fails for an index whose owner names a table and carries
  no paths: the owner is not empty (it is written to the catalog row of the index),
  and \<open>DropIndex\<close> drops the index all the same.
\<close>

theorem DropIndex_owner_without_paths_counterexample:
  "GetIndexInfo (Cache ex_db_owned) ''idx_foo_a'' = Inr ex_owned_index
   \<and> Owner ex_owned_index = \<lparr>owner_TableName = ''foo'', owner_Paths = []\<rparr>
   \<and> row_owner (indexInfoToDocument ex_owned_index)
       = Some \<lparr>owner_TableName = ''foo'', owner_Paths = []\<rparr>
   \<and> (case DropIndex ex_db_owned ''idx_foo_a'' of
         Inl e \<Rightarrow> False
       | Inr st' \<Rightarrow> rows st' ''idx_foo_a'' = None \<and> store st' 102 = Map.empty
                    \<and> map_of (indexes (Cache st')) ''idx_foo_a'' = None)"
  by (simp add: GetIndexInfo_def DropIndex_def bindE_def dropIndex_def Truncate_def
        CatalogStore_Delete_def Cache_Delete_def indexInfoToDocument_def
        ownerToDocument_def ex_db_owned_def ex_owned_index_def ex_cache_def ex_index_def)

lemma filter_delete:
  "filter (\<lambda>(k, v). k \<notin> S) (AList.delete x al) = filter (\<lambda>(k, v). k \<notin> insert x S) al"
  by (induction al) auto

lemma DropTable_indexes_eq:
  assumes "\<not> SessionReadOnly st" and "distinct (map IndexName idxs)"
    and "\<forall>idx \<in> set idxs. map_of (indexes (Cache st)) (IndexName idx) = Some idx
                           \<and> rows st (IndexName idx) \<noteq> None"
  shows "DropTable_indexes st idxs = Inr (after_DropTable_indexes st idxs)"
  using assms
proof (induction idxs arbitrary: st)
  case Nil
  then show ?case by (simp add: after_DropTable_indexes_def)
next
  case (Cons idx idxs)
  define st1 where "st1 = st\<lparr>Cache := cache_del RelationIndexType (IndexName idx) (Cache st),
                  OnRollbackHooks := OnRollbackHooks st @ [HookSet (IndexName idx) (RIndex idx)]\<rparr>"
  define st2 where "st2 = st1\<lparr>store := (store st1)(idx_StoreNamespace idx := Map.empty),
                              rows := (rows st1)(IndexName idx := None)\<rparr>"
  have del: "Cache_Delete st RelationIndexType (IndexName idx) = Inr (RIndex idx, st1)"
    using Cons.prems(3) by (simp add: Cache_Delete_def st1_def)
  have drop: "dropIndex st1 idx = Inr st2"
    using Cons.prems(1,3)
    by (simp add: dropIndex_def bindE_def Truncate_def CatalogStore_Delete_def st1_def st2_def)
  have step: "DropTable_indexes st (idx # idxs) = DropTable_indexes st2 idxs"
    using del drop by (simp add: bindE_def)
  have p1: "\<not> SessionReadOnly st2" using Cons.prems(1) by (simp add: st2_def st1_def)
  have p2: "distinct (map IndexName idxs)" using Cons.prems(2) by simp
  have ne: "\<forall>i \<in> set idxs. IndexName i \<noteq> IndexName idx"
    using Cons.prems(2) by (metis distinct.simps(2) image_eqI list.simps(9) set_map)
  have p3: "\<forall>i \<in> set idxs. map_of (indexes (Cache st2)) (IndexName i) = Some i
                           \<and> rows st2 (IndexName i) \<noteq> None"
    using Cons.prems(3) ne by (auto simp: st2_def st1_def delete_conv')
  have eq: "after_DropTable_indexes st2 idxs = after_DropTable_indexes st (idx # idxs)"
    by (auto simp: after_DropTable_indexes_def st2_def st1_def filter_delete fun_eq_iff)
  from Cons.IH[OF p1 p2 p3] step eq show ?case by simp
qed

lemma wf_indexes_table_distinct:
  assumes "wf_indexes c"
  shows "distinct (map IndexName (GetTableIndexes c t))"
proof -
  have "map IndexName (map snd (indexes c)) = map fst (indexes c)"
    using assms by (auto simp: wf_indexes_def list_all_iff)
  moreover have "distinct (map fst (indexes c))" using assms by (simp add: wf_indexes_def)
  ultimately have "distinct (map IndexName (map snd (indexes c)))" by metis
  then show ?thesis
    unfolding GetTableIndexes_def by (rule distinct_map_filter)
qed

text \<open>
  C2, amended. For a table registered in the cache, over a well-formed index map:
  \<open>DropTable\<close> refuses a read-only table; otherwise, in a writable session where the
  table and each of its indexes has its catalog row, it succeeds, and afterwards every
  index of the table is gone from the cache, with its row deleted and its namespace
  truncated, the cache entry and the row of the table are gone, and the namespace of
  the table is truncated. Nothing else changes; in particular the sequences of the
  cache are as before: \<open>DropTable\<close> does not touch the docid sequence.
\<close>

theorem DropTable_cascade:
  assumes tb: "GetTableInfo (Cache st) t = Inr ti"
    and wf: "wf_indexes (Cache st)"
  shows "(ReadOnly ti \<longrightarrow> DropTable st t = Inl ErrReadOnlyTable)
       \<and> (\<not> ReadOnly ti \<longrightarrow> \<not> SessionReadOnly st \<longrightarrow> rows st t \<noteq> None \<longrightarrow>
          list_all (\<lambda>idx. rows st (IndexName idx) \<noteq> None \<and> IndexName idx \<noteq> t)
            (GetTableIndexes (Cache st) t) \<longrightarrow>
          (\<exists>st'. DropTable st t = Inr st'
             \<and> indexes (Cache st') =
                 filter (\<lambda>(k, v). k \<notin> IndexName ` set (GetTableIndexes (Cache st) t))
                   (indexes (Cache st))
             \<and> map_of (tables (Cache st')) = (map_of (tables (Cache st)))(t := None)
             \<and> sequences (Cache st') = sequences (Cache st)
             \<and> rows st' = (\<lambda>n. if n = t \<or> n \<in> IndexName ` set (GetTableIndexes (Cache st) t)
                                then None else rows st n)
             \<and> store st' = (\<lambda>ns. if ns = StoreNamespace ti
                                     \<or> ns \<in> idx_StoreNamespace ` set (GetTableIndexes (Cache st) t)
                                   then Map.empty else store st ns)))"
proof -
  let ?idxs = "GetTableIndexes (Cache st) t"
  from tb have look: "map_of (tables (Cache st)) t = Some ti"
    by (auto simp: GetTableInfo_def split: option.splits)
  have 1: "ReadOnly ti \<longrightarrow> DropTable st t = Inl ErrReadOnlyTable"
    using tb by (simp add: DropTable_def bindE_def)
  have 2: "\<exists>st'. DropTable st t = Inr st'
             \<and> indexes (Cache st') =
                 filter (\<lambda>(k, v). k \<notin> IndexName ` set ?idxs) (indexes (Cache st))
             \<and> map_of (tables (Cache st')) = (map_of (tables (Cache st)))(t := None)
             \<and> sequences (Cache st') = sequences (Cache st)
             \<and> rows st' = (\<lambda>n. if n = t \<or> n \<in> IndexName ` set ?idxs then None else rows st n)
             \<and> store st' = (\<lambda>ns. if ns = StoreNamespace ti \<or> ns \<in> idx_StoreNamespace ` set ?idxs
                                   then Map.empty else store st ns)"
    if ro: "\<not> ReadOnly ti" and sro: "\<not> SessionReadOnly st" and row: "rows st t \<noteq> None"
      and irows: "list_all (\<lambda>idx. rows st (IndexName idx) \<noteq> None \<and> IndexName idx \<noteq> t) ?idxs"
  proof -
    have d: "distinct (map IndexName ?idxs)" using wf by (rule wf_indexes_table_distinct)
    have l: "\<forall>idx \<in> set ?idxs. map_of (indexes (Cache st)) (IndexName idx) = Some idx
                           \<and> rows st (IndexName idx) \<noteq> None"
    proof
      fix idx assume m: "idx \<in> set ?idxs"
      from wf_indexes_lookup[OF wf m] have "map_of (indexes (Cache st)) (IndexName idx) = Some idx"
        by (auto simp: GetIndexInfo_def split: option.splits)
      with irows m show "map_of (indexes (Cache st)) (IndexName idx) = Some idx
                           \<and> rows st (IndexName idx) \<noteq> None"
        by (auto simp: list_all_iff)
    qed
    define st1 where "st1 = after_DropTable_indexes st ?idxs"
    have s1: "DropTable_indexes st ?idxs = Inr st1"
      unfolding st1_def using sro d l by (rule DropTable_indexes_eq)
    have tn: "t \<notin> IndexName ` set ?idxs" using irows by (auto simp: list_all_iff)
    have look1: "map_of (tables (Cache st1)) t = Some ti"
      using look by (simp add: st1_def after_DropTable_indexes_def)
    have row1: "rows st1 t \<noteq> None" using row tn by (simp add: st1_def after_DropTable_indexes_def)
    have sro1: "\<not> SessionReadOnly st1" using sro by (simp add: st1_def after_DropTable_indexes_def)
    show ?thesis
      using tb ro s1 look1 row1 sro1 tn
      by (auto simp: DropTable_def bindE_def Cache_Delete_def CatalogStore_Delete_def Truncate_def
            delete_conv' st1_def after_DropTable_indexes_def fun_eq_iff)
  qed
  from 1 2 show ?thesis by blast
qed

text \<open>
  C2, as the claim states it, fails: after \<open>DropTable\<close> of a table with a docid
  sequence, the sequence is still in the cache and still has its catalog row.
\<close>

theorem DropTable_keeps_sequence_counterexample:
  "(case DropTable ex_db_seq ''bar'' of
      Inl e \<Rightarrow> False
    | Inr st' \<Rightarrow>
        map_of (tables (Cache st')) ''bar'' = None
        \<and> map_of (sequences (Cache st')) ''bar_seq'' = Some ex_seq
        \<and> rows st' ''bar_seq'' = Some (sequenceInfoToDocument (Info ex_seq)))"
  by (simp add: DropTable_def bindE_def GetTableInfo_def GetTableIndexes_def Cache_Delete_def
        CatalogStore_Delete_def Truncate_def ex_db_seq_def ex_seq_table_def)

theorem DropTable_cascade_witness:
  "GetTableInfo (Cache ex_db) ''foo'' = Inr ex_table \<and> wf_indexes (Cache ex_db)
   \<and> (\<exists>st'. DropTable ex_db ''foo'' = Inr st'
         \<and> indexes (Cache st') = [] \<and> rows st' = Map.empty
         \<and> store st' 101 = Map.empty \<and> store st' 102 = Map.empty
         \<and> store st' 100 = [[1] \<mapsto> [7]])"
proof -
  have h1: "GetTableInfo (Cache ex_db) ''foo'' = Inr ex_table"
    by (simp add: GetTableInfo_def ex_db_def ex_cache_def)
  have h2: "wf_indexes (Cache ex_db)"
    by (simp add: wf_indexes_def ex_db_def ex_cache_def ex_index_def)
  have g: "GetTableIndexes (Cache ex_db) ''foo'' = [ex_index]"
    by (simp add: GetTableIndexes_def ex_db_def ex_cache_def ex_index_def)
  have a: "\<not> ReadOnly ex_table" by (simp add: ex_table_def)
  have b: "\<not> SessionReadOnly ex_db" by (simp add: ex_db_def)
  have c: "rows ex_db ''foo'' \<noteq> None" by (simp add: ex_db_def)
  have d: "list_all (\<lambda>idx. rows ex_db (IndexName idx) \<noteq> None \<and> IndexName idx \<noteq> ''foo'')
            (GetTableIndexes (Cache ex_db) ''foo'')"
    unfolding g by (simp add: ex_db_def ex_index_def)
  from DropTable_cascade[OF h1 h2]
  have "\<not> ReadOnly ex_table \<longrightarrow> \<not> SessionReadOnly ex_db \<longrightarrow> rows ex_db ''foo'' \<noteq> None \<longrightarrow>
          list_all (\<lambda>idx. rows ex_db (IndexName idx) \<noteq> None \<and> IndexName idx \<noteq> ''foo'')
            (GetTableIndexes (Cache ex_db) ''foo'') \<longrightarrow>
          (\<exists>st'. DropTable ex_db ''foo'' = Inr st'
             \<and> indexes (Cache st') =
                 filter (\<lambda>(k, v). k \<notin> IndexName ` set (GetTableIndexes (Cache ex_db) ''foo''))
                   (indexes (Cache ex_db))
             \<and> map_of (tables (Cache st')) = (map_of (tables (Cache ex_db)))(''foo'' := None)
             \<and> sequences (Cache st') = sequences (Cache ex_db)
             \<and> rows st' = (\<lambda>n. if n = ''foo'' \<or> n \<in> IndexName ` set (GetTableIndexes (Cache ex_db) ''foo'')
                                then None else rows ex_db n)
             \<and> store st' = (\<lambda>ns. if ns = StoreNamespace ex_table
                                     \<or> ns \<in> idx_StoreNamespace ` set (GetTableIndexes (Cache ex_db) ''foo'')
                                   then Map.empty else store ex_db ns))"
    by (elim conjE)
  from this[rule_format, OF a b c d] obtain st' where
    r: "DropTable ex_db ''foo'' = Inr st'"
    and i: "indexes (Cache st') =
                 filter (\<lambda>(k, v). k \<notin> IndexName ` set (GetTableIndexes (Cache ex_db) ''foo''))
                   (indexes (Cache ex_db))"
    and ro: "rows st' = (\<lambda>n. if n = ''foo'' \<or> n \<in> IndexName ` set (GetTableIndexes (Cache ex_db) ''foo'')
                                then None else rows ex_db n)"
    and s: "store st' = (\<lambda>ns. if ns = StoreNamespace ex_table
                                     \<or> ns \<in> idx_StoreNamespace ` set (GetTableIndexes (Cache ex_db) ''foo'')
                                   then Map.empty else store ex_db ns)"
    by (elim exE conjE)
  have i': "indexes (Cache st') = []"
    unfolding i g by (simp add: ex_db_def ex_cache_def ex_index_def)
  have ro': "rows st' = Map.empty"
    unfolding ro g by (auto simp: ex_db_def ex_index_def fun_eq_iff)
  have s': "store st' 101 = Map.empty" "store st' 102 = Map.empty" "store st' 100 = [[1] \<mapsto> [7]]"
    unfolding s g by (simp_all add: ex_db_def ex_index_def ex_table_def)
  from h1 h2 r i' ro' s' show ?thesis by (intro conjI exI)
qed

text \<open>
  C3 fails on a table with an index. \<open>RenameTable\<close> puts the clone with the new table
  name into the cache but writes the catalog row from the old entry: after renaming
  \<open>foo\<close> to \<open>bar\<close> the cached index belongs to \<open>bar\<close> and its catalog row still
  says \<open>foo\<close>.
\<close>

theorem RenameTable_index_row_diverges:
  "(case RenameTable (\<lambda>r. []) ex_db ''foo'' ''bar'' of
      Inl e \<Rightarrow> False
    | Inr st' \<Rightarrow>
        map_option idx_TableName (map_of (indexes (Cache st')) ''idx_foo_a'') = Some ''bar''
        \<and> map_option row_table_name (rows st' ''idx_foo_a'') = Some (Some ''foo'')
        \<and> rows st' ''idx_foo_a'' \<noteq>
            map_option indexInfoToDocument (map_of (indexes (Cache st')) ''idx_foo_a''))"
  by (simp add: RenameTable_def bindE_def CatalogStore_Delete_def Cache_Delete_def
        CatalogStore_Insert_def CatalogStore_Replace_def Cache_Add_def add_entry_def
        objectExists_def GetTableIndexes_def ListSequences_def GetSequence_def
        indexInfoToDocument_def tableInfoToDocument_def Let_def
        ex_db_def ex_cache_def ex_table_def ex_index_def ex_no_owner_def)

text \<open>
  C4. A mutation of the cache (\<open>Add\<close>, \<open>Replace\<close>, \<open>Delete\<close>) that goes through appends
  exactly one hook to the rollback list, and that hook undoes it. After any run of
  mutations, the hooks appended are as many as the mutations that went through, and
  running them in reverse order gives back the three maps of the cache as they were
  before the run.
\<close>

theorem cache_rollback_restores:
  "(\<forall>st1. apply_op gbn st op = Inr st1 \<longrightarrow>
       (\<exists>h. OnRollbackHooks st1 = OnRollbackHooks st @ [h]
            \<and> same_maps (run_hook h (Cache st1)) (Cache st)))
   \<and> (\<forall>st' n. apply_ops gbn st ops = (st', n) \<longrightarrow>
       (\<exists>hs. OnRollbackHooks st' = OnRollbackHooks st @ hs \<and> length hs = n
            \<and> same_maps (run_hooks_lifo hs (Cache st')) (Cache st)))"
  using apply_op_hook apply_ops_rollback by blast

theorem cache_rollback_restores_witness:
  "snd (apply_ops (\<lambda>r. ''foo'') ex_db ex_ops) = 3
   \<and> (\<exists>hs. OnRollbackHooks (fst (apply_ops (\<lambda>r. ''foo'') ex_db ex_ops)) = hs \<and> length hs = 3
         \<and> same_maps (run_hooks_lifo hs (Cache (fst (apply_ops (\<lambda>r. ''foo'') ex_db ex_ops))))
              ex_cache)"
proof -
  have n: "snd (apply_ops (\<lambda>r. ''foo'') ex_db ex_ops) = 3"
    by (simp add: ex_ops_def apply_op_def Cache_Delete_def Cache_Add_def Cache_Replace_def
          add_entry_def objectExists_def generateUnusedName_def Let_def
          ex_db_def ex_cache_def ex_table_def ex_index_def
          generateUnusedName_loop.simps[of _ _ _ 0] generateUnusedName_loop.simps[of _ _ _ 1]
          itoa.simps[of 1]
          split: prod.splits)
  have e: "apply_ops (\<lambda>r. ''foo'') ex_db ex_ops
            = (fst (apply_ops (\<lambda>r. ''foo'') ex_db ex_ops), 3)"
    using n by (metis prod.collapse)
  from cache_rollback_restores[of "\<lambda>r. ''foo''" ex_db "OpAdd (RTable ex_table)" ex_ops]
  have "\<forall>st' n. apply_ops (\<lambda>r. ''foo'') ex_db ex_ops = (st', n) \<longrightarrow>
       (\<exists>hs. OnRollbackHooks st' = OnRollbackHooks ex_db @ hs \<and> length hs = n
            \<and> same_maps (run_hooks_lifo hs (Cache st')) (Cache ex_db))"
    by (elim conjE)
  from this[rule_format, OF e] obtain hs where
    "OnRollbackHooks (fst (apply_ops (\<lambda>r. ''foo'') ex_db ex_ops)) = OnRollbackHooks ex_db @ hs"
    "length hs = 3"
    "same_maps (run_hooks_lifo hs (Cache (fst (apply_ops (\<lambda>r. ''foo'') ex_db ex_ops)))) (Cache ex_db)"
    by (elim exE conjE)
  then have "\<exists>hs. OnRollbackHooks (fst (apply_ops (\<lambda>r. ''foo'') ex_db ex_ops)) = hs \<and> length hs = 3
         \<and> same_maps (run_hooks_lifo hs (Cache (fst (apply_ops (\<lambda>r. ''foo'') ex_db ex_ops))))
              ex_cache"
    by (simp add: ex_db_def)
  with n show ?thesis by (intro conjI)
qed

end
